theory Spec2Isabelle
  imports Main "HOL-Library.Word"
begin

text \<open>
  A shallow embedding of the patch and launch service of the Slashdiablo launcher
  (package \<open>d2\<close>, \<open>service.go\<close>, with the darwin build of the platform
  functions): the diff planner \<open>getFilesToPatch\<close>, the layer reset
  \<open>resetPatch\<close>, the patch applier \<open>doPatch\<close> with its cleanup, the four
  layer applications, \<open>ValidateGameVersions\<close>, and the instance supervisor
  \<open>Exec\<close> with \<open>listenForGameStates\<close>.  Functions that return a Go error
  return a sum or an option here, loops are recursive functions, and the disk, the
  remote repository and the tracked instances are explicit state.
\<close>

section \<open>Data model of the d2 service\<close>

text \<open>
  Go errors.  The service only ever asks two things of an error value: whether
  \<open>os.IsNotExist\<close> holds for it, and its message (through the \<open>%s\<close> verb
  of \<open>fmt.Errorf\<close>).
\<close>

datatype error = ErrNotExist string | ErrOther string

fun IsNotExist :: "error \<Rightarrow> bool" where
  "IsNotExist (ErrNotExist m) = True"
| "IsNotExist (ErrOther m) = False"

fun errorString :: "error \<Rightarrow> string" where
  "errorString (ErrNotExist m) = m"
| "errorString (ErrOther m) = m"

text \<open>
  The pair \<open>(string, error)\<close> returned by \<open>hashCRC32(path, polynomial)\<close>: a
  checksum, the sentinel \<open>ErrCRCFileNotFound\<close>, or any other error.
\<close>

datatype crc_result = Hashed string | ErrCRCFileNotFound | HashError error

text \<open>\<open>type PatchFile struct\<close>; \<open>ContentLength\<close> is an \<open>int64\<close>.\<close>

record PatchFile =
  Name :: string
  CRC :: string
  LastModified :: string
  ContentLength :: "64 word"

text \<open>The darwin build of \<open>localizePath\<close> returns its argument.\<close>

definition localizePath :: "string \<Rightarrow> string" where
  "localizePath path = path"

text \<open>\<open>fmt.Sprintf("%s/%s", dir, name)\<close>.\<close>

definition joinPath :: "string \<Rightarrow> string \<Rightarrow> string" where
  "joinPath dir name = dir @ ''/'' @ name"

section \<open>Diff planner: getFilesToPatch\<close>

text \<open>
  The inner loop shared by \<open>getFilesToPatch\<close> and \<open>resetPatch\<close>:
  \<open>for _, ignored := range filesToIgnore { if name == ignored { ignore = true; break } }\<close>.
\<close>

fun ignoredName :: "string \<Rightarrow> string list \<Rightarrow> bool" where
  "ignoredName name [] = False"
| "ignoredName name (ignored # rest) = (if name = ignored then True else ignoredName name rest)"

text \<open>
  The loop over the manifest files, with the two accumulators \<open>shouldPatch\<close> and
  \<open>totalContentLength\<close>.  The checksum lookup \<open>hashCRC32\<close> (with its fixed
  polynomial) is a parameter: it maps a local path to what the lookup returns.  A
  \<open>nil\<close> and an empty \<open>filesToIgnore\<close> are both the empty list.
\<close>

fun getFilesToPatch_loop ::
  "(string \<Rightarrow> crc_result) \<Rightarrow> string \<Rightarrow> string list \<Rightarrow> PatchFile list
    \<Rightarrow> string list \<Rightarrow> 64 word \<Rightarrow> error + (string list \<times> 64 word)" where
  "getFilesToPatch_loop hashCRC32 d2path filesToIgnore [] shouldPatch totalContentLength =
     Inr (shouldPatch, totalContentLength)"
| "getFilesToPatch_loop hashCRC32 d2path filesToIgnore (f # files) shouldPatch totalContentLength =
     (if filesToIgnore \<noteq> [] \<and> ignoredName (Name f) filesToIgnore
      then getFilesToPatch_loop hashCRC32 d2path filesToIgnore files shouldPatch totalContentLength
      else case hashCRC32 (localizePath (joinPath d2path (Name f))) of
          HashError err \<Rightarrow> Inl err
        | ErrCRCFileNotFound \<Rightarrow>
            getFilesToPatch_loop hashCRC32 d2path filesToIgnore files
              (shouldPatch @ [Name f]) (totalContentLength + ContentLength f)
        | Hashed hashed \<Rightarrow>
            if hashed \<noteq> CRC f
            then getFilesToPatch_loop hashCRC32 d2path filesToIgnore files
                   (shouldPatch @ [Name f]) (totalContentLength + ContentLength f)
            else getFilesToPatch_loop hashCRC32 d2path filesToIgnore files
                   shouldPatch totalContentLength)"

definition getFilesToPatch ::
  "(string \<Rightarrow> crc_result) \<Rightarrow> PatchFile list \<Rightarrow> string \<Rightarrow> string list
    \<Rightarrow> error + (string list \<times> 64 word)" where
  "getFilesToPatch hashCRC32 files d2path filesToIgnore =
     getFilesToPatch_loop hashCRC32 d2path filesToIgnore files [] 0"

text \<open>
  The vocabulary of the planner's contract.  A manifest file is \<^emph>\<open>stale\<close> when the
  lookup signals \<open>ErrCRCFileNotFound\<close> or returns a checksum other than the
  manifest's; it is \<^emph>\<open>unreadable\<close> when the lookup fails with any other error; it
  is \<^emph>\<open>planned\<close> when it is stale and not named in the ignore list.
\<close>

definition localCRC :: "(string \<Rightarrow> crc_result) \<Rightarrow> string \<Rightarrow> PatchFile \<Rightarrow> crc_result" where
  "localCRC hashCRC32 d2path f = hashCRC32 (localizePath (joinPath d2path (Name f)))"

definition stale :: "(string \<Rightarrow> crc_result) \<Rightarrow> string \<Rightarrow> PatchFile \<Rightarrow> bool" where
  "stale hashCRC32 d2path f =
     (case localCRC hashCRC32 d2path f of
        Hashed hashed \<Rightarrow> hashed \<noteq> CRC f
      | ErrCRCFileNotFound \<Rightarrow> True
      | HashError err \<Rightarrow> False)"

definition unreadable :: "(string \<Rightarrow> crc_result) \<Rightarrow> string \<Rightarrow> PatchFile \<Rightarrow> bool" where
  "unreadable hashCRC32 d2path f =
     (case localCRC hashCRC32 d2path f of HashError err \<Rightarrow> True | _ \<Rightarrow> False)"

definition planned ::
  "(string \<Rightarrow> crc_result) \<Rightarrow> string \<Rightarrow> string list \<Rightarrow> PatchFile \<Rightarrow> bool" where
  "planned hashCRC32 d2path filesToIgnore f =
     (Name f \<notin> set filesToIgnore \<and> stale hashCRC32 d2path f)"

section \<open>The environment of the service\<close>

text \<open>
  The service talks to an operating system, a remote patch repository and a
  configuration service.  Their calls are the primitives below.  The local disk is a
  map from full paths to contents.  Every primitive that changes the disk, asks the
  remote repository for a file or sends on the status and progress channels appends
  to the trace, in program order; reads of the local disk leave the world as it is.
\<close>

datatype effect =
    Fetched string
  | Created string
  | Wrote string
  | Renamed string string
  | Removed string
  | Progress0
  | Status string

record world =
  disk :: "string \<rightharpoonup> string"
  trace :: "effect list"

text \<open>
  Modelled from the spec: the type \<open>storage.Game\<close> is declared in a package that is
  not part of the sources (the spec's GameInstall: id, filesystem location, desired
  instance count, per-layer enable flags, per-layer override flags).  The fields are
  the ones the service reads; \<open>Instances\<close> is a Go \<open>int\<close> (64 bits on the darwin
  build).
\<close>

record Game =
  ID :: string
  Location :: string
  Instances :: "64 word"
  Flags :: "string list"
  Maphack :: bool
  HD :: bool
  OverrideBHCfg :: bool

text \<open>
  What the service cannot decide itself is a parameter: which calls fail and with which
  error (\<open>fault\<close>), what the remote repository answers (\<open>remoteFile\<close>), how many
  bytes a failing \<open>io.Copy\<close> had written (\<open>partialWrite\<close>), what
  \<open>ioutil.ReadDir\<close> lists (\<open>dirListing\<close>), the checksum of a content
  (\<open>crcOf\<close>), how a manifest decodes (\<open>decodeManifest\<close>: \<open>json.Unmarshal\<close>
  followed by \<open>.Files\<close>) and what \<open>configService.Read()\<close> returns
  (\<open>configRead\<close>: an error or \<open>conf.Games\<close>).
\<close>

datatype syscall =
    Stat string
  | Remove string
  | Rename string string
  | Create string
  | Copy string
  | Hash string
  | ReadAll string

record env =
  fault :: "syscall \<Rightarrow> error option"
  remoteFile :: "string \<Rightarrow> error + string"
  partialWrite :: "string \<Rightarrow> nat"
  dirListing :: "string \<Rightarrow> error + string list"
  crcOf :: "string \<Rightarrow> string"
  decodeManifest :: "string \<Rightarrow> error + PatchFile list"
  configRead :: "error + Game list"

definition emit :: "effect \<Rightarrow> world \<Rightarrow> world" where
  "emit x w = w\<lparr>trace := trace w @ [x]\<rparr>"

text \<open>
  Modelled from the spec: \<open>hashCRC32\<close> and \<open>ErrCRCFileNotFound\<close> live in a file of
  the package that is not part of the sources.  The spec's integrity checker is
  \<open>checksum(path) -> value | NotFound\<close>: it signals NotFound when the file is absent,
  and any other failure to read propagates as an error.
\<close>

definition hashCRC32 :: "env \<Rightarrow> world \<Rightarrow> string \<Rightarrow> crc_result" where
  "hashCRC32 e w path =
     (case disk w path of
        None \<Rightarrow> ErrCRCFileNotFound
      | Some contents \<Rightarrow>
          (case fault e (Hash path) of
             Some err \<Rightarrow> HashError err
           | None \<Rightarrow> Hashed (crcOf e contents)))"

text \<open>\<open>os.Stat\<close>, reduced to its error: \<open>None\<close> is Go's \<open>nil\<close>.\<close>

definition osStat :: "env \<Rightarrow> world \<Rightarrow> string \<Rightarrow> error option" where
  "osStat e w path =
     (case fault e (Stat path) of
        Some err \<Rightarrow> Some err
      | None \<Rightarrow> if disk w path = None then Some (ErrNotExist path) else None)"

definition osRemove :: "env \<Rightarrow> string \<Rightarrow> world \<Rightarrow> error option \<times> world" where
  "osRemove e path w =
     (case fault e (Remove path) of
        Some err \<Rightarrow> (Some err, w)
      | None \<Rightarrow>
          if disk w path = None then (Some (ErrNotExist path), w)
          else (None, emit (Removed path) (w\<lparr>disk := (disk w)(path := None)\<rparr>)))"

definition osRename :: "env \<Rightarrow> string \<Rightarrow> string \<Rightarrow> world \<Rightarrow> error option \<times> world" where
  "osRename e oldpath newpath w =
     (case fault e (Rename oldpath newpath) of
        Some err \<Rightarrow> (Some err, w)
      | None \<Rightarrow>
          (case disk w oldpath of
             None \<Rightarrow> (Some (ErrNotExist oldpath), w)
           | Some contents \<Rightarrow>
               (None, emit (Renamed oldpath newpath)
                        (w\<lparr>disk := ((disk w)(oldpath := None))(newpath \<mapsto> contents)\<rparr>))))"

text \<open>\<open>os.Create\<close> creates the file or truncates it.\<close>

definition osCreate :: "env \<Rightarrow> string \<Rightarrow> world \<Rightarrow> error option \<times> world" where
  "osCreate e path w =
     (case fault e (Create path) of
        Some err \<Rightarrow> (Some err, w)
      | None \<Rightarrow> (None, emit (Created path) (w\<lparr>disk := (disk w)(path \<mapsto> [])\<rparr>)))"

text \<open>
  \<open>io.Copy(out, io.TeeReader(contents, counter))\<close> into the file created at
  \<open>path\<close>.  The \<open>WriteCounter\<close> only reports progress and is left out.
\<close>

definition ioCopy :: "env \<Rightarrow> string \<Rightarrow> string \<Rightarrow> world \<Rightarrow> error option \<times> world" where
  "ioCopy e path contents w =
     (case fault e (Copy path) of
        Some err \<Rightarrow>
          (Some err, emit (Wrote path)
                       (w\<lparr>disk := (disk w)(path \<mapsto> take (partialWrite e path) contents)\<rparr>))
      | None \<Rightarrow> (None, emit (Wrote path) (w\<lparr>disk := (disk w)(path \<mapsto> contents)\<rparr>)))"

text \<open>\<open>s.slashdiabloClient.GetFile\<close>: the request is recorded, whatever it returns.\<close>

definition GetFile :: "env \<Rightarrow> string \<Rightarrow> world \<Rightarrow> (error + string) \<times> world" where
  "GetFile e path w = (remoteFile e path, emit (Fetched path) w)"

definition getManifest :: "env \<Rightarrow> string \<Rightarrow> world \<Rightarrow> (error + PatchFile list) \<times> world" where
  "getManifest e path w =
     (case GetFile e path w of
        (Inl err, w1) \<Rightarrow> (Inl err, w1)
      | (Inr contents, w1) \<Rightarrow>
          (case fault e (ReadAll path) of
             Some err \<Rightarrow> (Inl err, w1)
           | None \<Rightarrow> (decodeManifest e contents, w1)))"

subsection \<open>The darwin build of the platform functions\<close>

definition validate113cVersion :: "string \<Rightarrow> error + bool" where
  "validate113cVersion dir = Inr True"

definition launch :: "string \<Rightarrow> string list \<Rightarrow> error + int" where
  "launch path flags = Inr 1"

definition configureForOS :: "string \<Rightarrow> error option" where
  "configureForOS path = None"

definition isHDInstalled :: "env \<Rightarrow> world \<Rightarrow> string \<Rightarrow> error + bool" where
  "isHDInstalled e w path =
     (case osStat e w (localizePath (joinPath path ''D2HD.dll'')) of
        Some err \<Rightarrow> if IsNotExist err then Inr False else Inl err
      | None \<Rightarrow> Inr True)"

definition isMaphackInstalled :: "env \<Rightarrow> world \<Rightarrow> string \<Rightarrow> error + bool" where
  "isMaphackInstalled e w path =
     (case osStat e w (localizePath (joinPath path ''BH.dll'')) of
        Some err \<Rightarrow> if IsNotExist err then Inr False else Inl err
      | None \<Rightarrow> Inr True)"

section \<open>Layer reset: resetPatch\<close>

text \<open>The loop \<open>for _, file := range files\<close> of \<open>resetPatch\<close>.\<close>

fun resetPatch_loop ::
  "env \<Rightarrow> string \<Rightarrow> string list \<Rightarrow> PatchFile list \<Rightarrow> world \<Rightarrow> error option \<times> world" where
  "resetPatch_loop e path filesToIgnore [] w = (None, w)"
| "resetPatch_loop e path filesToIgnore (file # rest) w =
     (let filePath = localizePath (joinPath path (Name file)) in
      case osStat e w filePath of
        Some err \<Rightarrow>
          if IsNotExist err then resetPatch_loop e path filesToIgnore rest w
          else (Some err, w)
      | None \<Rightarrow>
          if \<not> ignoredName (Name file) filesToIgnore
          then (case osRemove e filePath w of
                  (Some err, w1) \<Rightarrow> (Some err, w1)
                | (None, w1) \<Rightarrow> resetPatch_loop e path filesToIgnore rest w1)
          else resetPatch_loop e path filesToIgnore rest w)"

definition resetPatch ::
  "env \<Rightarrow> string \<Rightarrow> PatchFile list \<Rightarrow> string list \<Rightarrow> world \<Rightarrow> error option \<times> world" where
  "resetPatch e path manifest filesToIgnore w =
     (case getFilesToPatch (hashCRC32 e w) manifest path filesToIgnore of
        Inl err \<Rightarrow> (Some err, w)
      | Inr (missmatchedFiles, len) \<Rightarrow>
          if length missmatchedFiles \<noteq> length manifest
          then resetPatch_loop e path filesToIgnore manifest w
          else (None, w))"

section \<open>Patch applier: doPatch, downloadFile, cleanUpFailedPatch\<close>

definition downloadFile ::
  "env \<Rightarrow> string \<Rightarrow> string \<Rightarrow> string \<Rightarrow> world \<Rightarrow> error option \<times> world" where
  "downloadFile e fileName remoteDir path w =
     (case osCreate e path w of
        (Some err, w1) \<Rightarrow> (Some err, w1)
      | (None, w1) \<Rightarrow>
          (case GetFile e (joinPath remoteDir fileName) w1 of
             (Inl err, w2) \<Rightarrow> (Some err, w2)
           | (Inr contents, w2) \<Rightarrow> ioCopy e path contents w2))"

text \<open>
  The first loop of \<open>doPatch\<close>: every file is downloaded to its name with the
  suffix \<open>.tmp\<close>, and the staged paths are collected in \<open>tmpFiles\<close>.
\<close>

fun doPatch_download ::
  "env \<Rightarrow> string \<Rightarrow> string \<Rightarrow> string list \<Rightarrow> string list \<Rightarrow> world
    \<Rightarrow> (error + string list) \<times> world" where
  "doPatch_download e remoteDir path [] tmpFiles w = (Inr tmpFiles, w)"
| "doPatch_download e remoteDir path (fileName # rest) tmpFiles w =
     (let tmpPath = localizePath (joinPath path fileName @ ''.tmp'') in
      case downloadFile e fileName remoteDir tmpPath w of
        (Some err, w1) \<Rightarrow> (Inl err, w1)
      | (None, w1) \<Rightarrow> doPatch_download e remoteDir path rest (tmpFiles @ [tmpPath]) w1)"

text \<open>
  The second loop: \<open>os.Rename(tmpFile, tmpFile[:len(tmpFile)-4])\<close>.  Every staged
  path ends in \<open>.tmp\<close>, so the slice expression is always in range.
\<close>

fun doPatch_rename :: "env \<Rightarrow> string list \<Rightarrow> world \<Rightarrow> error option \<times> world" where
  "doPatch_rename e [] w = (None, w)"
| "doPatch_rename e (tmpFile # rest) w =
     (case osRename e tmpFile (take (length tmpFile - 4) tmpFile) w of
        (Some err, w1) \<Rightarrow> (Some err, w1)
      | (None, w1) \<Rightarrow> doPatch_rename e rest w1)"

definition doPatch ::
  "env \<Rightarrow> string list \<Rightarrow> 64 word \<Rightarrow> string \<Rightarrow> string \<Rightarrow> world \<Rightarrow> error option \<times> world" where
  "doPatch e patchFiles patchLength remoteDir path w =
     (case doPatch_download e remoteDir path patchFiles [] (emit Progress0 w) of
        (Inl err, w1) \<Rightarrow> (Some err, w1)
      | (Inr tmpFiles, w1) \<Rightarrow> doPatch_rename e tmpFiles w1)"

text \<open>\<open>strings.Contains\<close>.\<close>

fun HasPrefix :: "string \<Rightarrow> string \<Rightarrow> bool" where
  "HasPrefix s [] = True"
| "HasPrefix [] (c # cs) = False"
| "HasPrefix (x # xs) (c # cs) = (x = c \<and> HasPrefix xs cs)"

fun Contains :: "string \<Rightarrow> string \<Rightarrow> bool" where
  "Contains [] substr = (substr = [])"
| "Contains (x # xs) substr = (HasPrefix (x # xs) substr \<or> Contains xs substr)"

fun cleanUpFailedPatch_loop ::
  "env \<Rightarrow> string \<Rightarrow> string list \<Rightarrow> world \<Rightarrow> error option \<times> world" where
  "cleanUpFailedPatch_loop e dir [] w = (None, w)"
| "cleanUpFailedPatch_loop e dir (fileName # rest) w =
     (if Contains fileName ''.tmp''
      then (case osRemove e (localizePath (joinPath dir fileName)) w of
              (Some err, w1) \<Rightarrow> (Some err, w1)
            | (None, w1) \<Rightarrow> cleanUpFailedPatch_loop e dir rest w1)
      else cleanUpFailedPatch_loop e dir rest w)"

definition cleanUpFailedPatch :: "env \<Rightarrow> string \<Rightarrow> world \<Rightarrow> error option \<times> world" where
  "cleanUpFailedPatch e dir w =
     (case dirListing e (localizePath dir) of
        Inl err \<Rightarrow> (Some err, w)
      | Inr names \<Rightarrow> cleanUpFailedPatch_loop e dir names w)"

section \<open>Layer application: apply113c, applySlashPatch, applyMaphack, applyHDMod\<close>

text \<open>\<open>fmt.Errorf("Clean up error: %s : %s", patchErr, err)\<close>.\<close>

definition cleanUpError :: "error \<Rightarrow> error \<Rightarrow> error" where
  "cleanUpError patchErr err =
     ErrOther (''Clean up error: '' @ errorString patchErr @ '' : '' @ errorString err)"

definition apply113c :: "env \<Rightarrow> string \<Rightarrow> world \<Rightarrow> error option \<times> world" where
  "apply113c e path w =
     (case getManifest e ''1.13c/manifest.json'' (emit (Status ''Checking game version...'') w) of
        (Inl err, w1) \<Rightarrow> (Some err, w1)
      | (Inr manifest, w1) \<Rightarrow>
          (case getFilesToPatch (hashCRC32 e w1) manifest path [] of
             Inl err \<Rightarrow> (Some err, w1)
           | Inr (patchFiles, patchLength) \<Rightarrow>
               if length patchFiles > 0
               then (case doPatch e patchFiles patchLength ''1.13c'' path
                            (emit (Status (''Updating '' @ path @ '' to 1.13c'')) w1) of
                       (Some patchErr, w2) \<Rightarrow>
                         (case cleanUpFailedPatch e path w2 of
                            (Some err, w3) \<Rightarrow> (Some (cleanUpError patchErr err), w3)
                          | (None, w3) \<Rightarrow> (Some patchErr, w3))
                     | (None, w2) \<Rightarrow> (None, w2))
               else (None, w1)))"

definition applySlashPatch :: "env \<Rightarrow> string \<Rightarrow> world \<Rightarrow> error option \<times> world" where
  "applySlashPatch e path w =
     (case getManifest e ''current/manifest.json''
             (emit (Status ''Checking Slashdiablo patch...'') w) of
        (Inl err, w1) \<Rightarrow> (Some err, w1)
      | (Inr manifest, w1) \<Rightarrow>
          (case getFilesToPatch (hashCRC32 e w1) manifest path [] of
             Inl err \<Rightarrow> (Some err, w1)
           | Inr (patchFiles, patchLength) \<Rightarrow>
               if length patchFiles > 0
               then (case doPatch e patchFiles patchLength ''current'' path
                            (emit (Status (''Updating '' @ path @ '' to current Slashdiablo patch''))
                               w1) of
                       (Some patchErr, w2) \<Rightarrow>
                         (case cleanUpFailedPatch e path w2 of
                            (Some err, w3) \<Rightarrow> (Some (cleanUpError patchErr err), w3)
                          | (None, w3) \<Rightarrow> (Some patchErr, w3))
                     | (None, w2) \<Rightarrow> (None, w2))
               else (None, w1)))"

definition applyMaphack ::
  "env \<Rightarrow> string \<Rightarrow> PatchFile list \<Rightarrow> string list \<Rightarrow> world \<Rightarrow> error option \<times> world" where
  "applyMaphack e path manifestFiles ignoredFiles w =
     (let w1 = emit (Status ''Checking maphack...'') w in
      case getFilesToPatch (hashCRC32 e w1) manifestFiles path ignoredFiles of
        Inl err \<Rightarrow> (Some err, w1)
      | Inr (patchFiles, patchLength) \<Rightarrow>
          if length patchFiles > 0
          then (case doPatch e patchFiles patchLength ''maphack'' path
                       (emit (Status (''Updating '' @ path @ '' to latest maphack version'')) w1) of
                  (Some patchErr, w2) \<Rightarrow>
                    (case cleanUpFailedPatch e path w2 of
                       (Some err, w3) \<Rightarrow> (Some (cleanUpError patchErr err), w3)
                     | (None, w3) \<Rightarrow> (Some patchErr, w3))
                | (None, w2) \<Rightarrow> (None, w2))
          else (None, w1))"

definition applyHDMod ::
  "env \<Rightarrow> string \<Rightarrow> PatchFile list \<Rightarrow> world \<Rightarrow> error option \<times> world" where
  "applyHDMod e path manifestFiles w =
     (let w1 = emit (Status ''Checking HD mod...'') w in
      case getFilesToPatch (hashCRC32 e w1) manifestFiles path [] of
        Inl err \<Rightarrow> (Some err, w1)
      | Inr (patchFiles, patchLength) \<Rightarrow>
          if length patchFiles > 0
          then (case doPatch e patchFiles patchLength ''hd'' path
                       (emit (Status (''Updating '' @ path @ '' to latest HD mod version'')) w1) of
                  (Some patchErr, w2) \<Rightarrow>
                    (case cleanUpFailedPatch e path w2 of
                       (Some err, w3) \<Rightarrow> (Some (cleanUpError patchErr err), w3)
                     | (None, w3) \<Rightarrow> (Some patchErr, w3))
                | (None, w2) \<Rightarrow> (None, w2))
          else (None, w1))"

section \<open>ValidateGameVersions\<close>

text \<open>
  The body of \<open>for _, game := range conf.Games\<close>.  Go's \<open>(false, err)\<close> is
  \<open>Inl err\<close>, \<open>(b, nil)\<close> is \<open>Inr b\<close>.  The checks of the two optional layers
  end in an early return or fall through to the next statement: \<open>Some r\<close> is the
  return of \<open>r\<close>, \<open>None\<close> falls through.
\<close>

definition maphackVerdict ::
  "env \<Rightarrow> world \<Rightarrow> Game \<Rightarrow> string list \<Rightarrow> (error + bool) option" where
  "maphackVerdict e w game missingMaphackFiles =
     (if Maphack game
      then (if length missingMaphackFiles > 0 then Some (Inr False) else None)
      else (case isMaphackInstalled e w (Location game) of
              Inl err \<Rightarrow> Some (Inl err)
            | Inr installed \<Rightarrow> if installed then Some (Inr False) else None))"

definition hdVerdict ::
  "env \<Rightarrow> world \<Rightarrow> Game \<Rightarrow> string list \<Rightarrow> (error + bool) option" where
  "hdVerdict e w game missingHDFiles =
     (if HD game
      then (if length missingHDFiles > 0 then Some (Inr False) else None)
      else (case isHDInstalled e w (Location game) of
              Inl err \<Rightarrow> Some (Inl err)
            | Inr installed \<Rightarrow> if installed then Some (Inr False) else None))"

text \<open>One round of the loop: \<open>Some r\<close> returns \<open>r\<close>, \<open>None\<close> goes on to the next game.\<close>

definition validateGame ::
  "env \<Rightarrow> world \<Rightarrow> PatchFile list \<Rightarrow> PatchFile list \<Rightarrow> PatchFile list \<Rightarrow> Game
    \<Rightarrow> (error + bool) option" where
  "validateGame e w slashManifest maphackManifest HDManifest game =
     (case validate113cVersion (Location game) of
        Inl err \<Rightarrow> Some (Inl err)
      | Inr valid \<Rightarrow>
          if \<not> valid then Some (Inr False)
          else (case getFilesToPatch (hashCRC32 e w) slashManifest (Location game) [] of
             Inl err \<Rightarrow> Some (Inl err)
           | Inr (slashFiles, len1) \<Rightarrow>
               if length slashFiles > 0 then Some (Inr False)
               else (let ignoredMaphackFiles = (if OverrideBHCfg game then [''BH.cfg''] else []) in
                 case getFilesToPatch (hashCRC32 e w) maphackManifest (Location game)
                        ignoredMaphackFiles of
                   Inl err \<Rightarrow> Some (Inl err)
                 | Inr (missingMaphackFiles, len2) \<Rightarrow>
                     (case maphackVerdict e w game missingMaphackFiles of
                        Some r \<Rightarrow> Some r
                      | None \<Rightarrow>
                          (case getFilesToPatch (hashCRC32 e w) HDManifest (Location game) [] of
                             Inl err \<Rightarrow> Some (Inl err)
                           | Inr (missingHDFiles, len3) \<Rightarrow>
                               hdVerdict e w game missingHDFiles)))))"

text \<open>The loop; \<open>upToDate\<close> is still \<open>true\<close> when it ends.\<close>

fun validateGames ::
  "env \<Rightarrow> world \<Rightarrow> PatchFile list \<Rightarrow> PatchFile list \<Rightarrow> PatchFile list \<Rightarrow> Game list
    \<Rightarrow> error + bool" where
  "validateGames e w slashManifest maphackManifest HDManifest [] = Inr True"
| "validateGames e w slashManifest maphackManifest HDManifest (game # games) =
     (case validateGame e w slashManifest maphackManifest HDManifest game of
        Some r \<Rightarrow> r
      | None \<Rightarrow> validateGames e w slashManifest maphackManifest HDManifest games)"

definition ValidateGameVersions :: "env \<Rightarrow> world \<Rightarrow> (error + bool) \<times> world" where
  "ValidateGameVersions e w =
     (case configRead e of
        Inl err \<Rightarrow> (Inl err, w)
      | Inr games \<Rightarrow>
          (case getManifest e ''current/manifest.json'' w of
             (Inl err, w1) \<Rightarrow> (Inl err, w1)
           | (Inr slashManifest, w1) \<Rightarrow>
               (case getManifest e ''maphack/manifest.json'' w1 of
                  (Inl err, w2) \<Rightarrow> (Inl err, w2)
                | (Inr maphackManifest, w2) \<Rightarrow>
                    (case getManifest e ''hd/manifest.json'' w2 of
                       (Inl err, w3) \<Rightarrow> (Inl err, w3)
                     | (Inr HDManifest, w3) \<Rightarrow>
                         (if length games > 0
                          then validateGames e w3 slashManifest maphackManifest HDManifest games
                          else Inr True, w3)))))"

section \<open>Instance supervisor: Exec, mutateInstancesToLaunch, listenForGameStates\<close>

text \<open>
  \<open>type game struct\<close> and \<open>type execState struct\<close> (its fields \<open>pid *int\<close> and
  \<open>err error\<close>; a \<open>nil\<close> is \<open>None\<close>).
\<close>

record game =
  PID :: int
  GameID :: string

record execState =
  state_pid :: "int option"
  state_err :: "error option"

text \<open>
  The part of \<open>type service struct\<close> the supervisor works on is the slice
  \<open>runningGames\<close>.  The supervisor's steps are recorded in program order:
  \<open>s.mux.Lock()\<close> and \<open>s.mux.Unlock()\<close>, every evaluation of
  \<open>s.runningGames\<close> (a read) and every assignment to it (a write), every call of
  \<open>time.Sleep\<close>, \<open>launch\<close> and \<open>s.logger.Error\<close>.
\<close>

datatype step =
    MuxLock
  | MuxUnlock
  | ReadRunningGames
  | WriteRunningGames
  | Sleep
  | Launch string "string list"
  | LogError string

record service =
  runningGames :: "game list"
  steps :: "step list"

definition record_step :: "step \<Rightarrow> service \<Rightarrow> service" where
  "record_step x s = s\<lparr>steps := steps s @ [x]\<rparr>"

text \<open>
  The inner loop of \<open>mutateInstancesToLaunch\<close>, counting in the Go \<open>int\<close>
  \<open>runningCount\<close>.
\<close>

fun countRunning :: "string \<Rightarrow> game list \<Rightarrow> 64 word \<Rightarrow> 64 word" where
  "countRunning gameID [] runningCount = runningCount"
| "countRunning gameID (running # rest) runningCount =
     (if gameID = GameID running
      then countRunning gameID rest (runningCount + 1)
      else countRunning gameID rest runningCount)"

fun mutateInstancesToLaunch :: "Game list \<Rightarrow> service \<Rightarrow> Game list \<times> service" where
  "mutateInstancesToLaunch [] s = ([], s)"
| "mutateInstancesToLaunch (g # games) s =
     (let s1 = record_step ReadRunningGames s;
          runningCount = countRunning (ID g) (runningGames s1) 0;
          (games', s2) = mutateInstancesToLaunch games s1
      in (g\<lparr>Instances := Instances g - runningCount\<rparr> # games', s2))"

text \<open>
  The loop \<open>for i := 0; i < g.Instances; i++\<close> runs \<open>g.Instances\<close> times, and not
  at all when \<open>g.Instances\<close> is negative; its first argument below is the number
  of rounds still to run.
\<close>

fun launchInstances :: "nat \<Rightarrow> Game \<Rightarrow> service \<Rightarrow> error option \<times> service" where
  "launchInstances 0 g s = (None, s)"
| "launchInstances (Suc n) g s =
     (let s1 = record_step (Launch (Location g) (Flags g)) (record_step Sleep s) in
      case launch (Location g) (Flags g) of
        Inl err \<Rightarrow> (Some err, s1)
      | Inr pid \<Rightarrow>
          (let s2 = record_step WriteRunningGames (record_step ReadRunningGames s1) in
           launchInstances n g
             (s2\<lparr>runningGames := runningGames s2 @ [\<lparr>PID = pid, GameID = ID g\<rparr>]\<rparr>)))"

fun launchGames :: "Game list \<Rightarrow> service \<Rightarrow> error option \<times> service" where
  "launchGames [] s = (None, s)"
| "launchGames (g # games) s =
     (case launchInstances (nat (sint (Instances g))) g s of
        (Some err, s1) \<Rightarrow> (Some err, s1)
      | (None, s1) \<Rightarrow> launchGames games s1)"

definition Exec :: "env \<Rightarrow> service \<Rightarrow> error option \<times> service" where
  "Exec e s =
     (case configRead e of
        Inl err \<Rightarrow> (Some err, s)
      | Inr games \<Rightarrow>
          (let (games', s1) = mutateInstancesToLaunch games s in launchGames games' s1))"

text \<open>
  One round of the \<open>for\<close>/\<open>select\<close> loop of \<open>listenForGameStates\<close>, for one
  received \<open>state\<close>.  The range expression \<open>s.runningGames\<close> is evaluated once:
  the loop visits the indices below its length at that time and reads each element
  from the backing array when it is visited.  \<open>append(s.runningGames[:index],
  s.runningGames[index+1:]...)\<close> never exceeds the capacity, so it shifts the
  elements of the same backing array one place down and the slice gets one shorter;
  \<open>s.runningGames[index+1:]\<close> panics when \<open>index+1\<close> is beyond the current length.
  The loop state is the backing array (up to the length at entry) and the current
  length of \<open>s.runningGames\<close>; \<open>None\<close> is the panic.
\<close>

fun removeExited ::
  "int option \<Rightarrow> nat list \<Rightarrow> game list \<Rightarrow> nat \<Rightarrow> step list
    \<Rightarrow> (game list \<times> nat \<times> step list) option" where
  "removeExited p [] array len trail = Some (array, len, trail)"
| "removeExited p (index # rest) array len trail =
     (let g = array ! index in
      if (case p of None \<Rightarrow> False | Some n \<Rightarrow> PID g = n)
      then (if index + 1 > len then None
            else removeExited p rest
                   (take index array @ drop (index + 1) (take len array) @ drop (len - 1) array)
                   (len - 1)
                   (trail @ [ReadRunningGames, ReadRunningGames, WriteRunningGames]))
      else removeExited p rest array len trail)"

definition listenForGameStates_round :: "execState \<Rightarrow> service \<Rightarrow> service option" where
  "listenForGameStates_round state s =
     (let s1 = (case state_err state of
                  Some err \<Rightarrow>
                    record_step (LogError (''Diablo II exec with code: '' @ errorString err)) s
                | None \<Rightarrow> s);
          s2 = record_step ReadRunningGames (record_step MuxLock s1)
      in case removeExited (state_pid state) [0 ..< length (runningGames s2)]
                (runningGames s2) (length (runningGames s2)) [] of
           None \<Rightarrow> None
         | Some (array, len, trail) \<Rightarrow>
             Some (record_step MuxUnlock
                     (s2\<lparr>runningGames := take len array, steps := steps s2 @ trail\<rparr>)))"

text \<open>The rounds for a finite sequence of received states; a panic ends the service.\<close>

fun listenForGameStates :: "execState list \<Rightarrow> service \<Rightarrow> service option" where
  "listenForGameStates [] s = Some s"
| "listenForGameStates (state # rest) s =
     (case listenForGameStates_round state s of
        None \<Rightarrow> None
      | Some s1 \<Rightarrow> listenForGameStates rest s1)"

section \<open>Vocabulary of the statements\<close>

text \<open>The local path of a manifest file, as both \<open>getFilesToPatch\<close> and \<open>resetPatch\<close> build it.\<close>

definition manifestPath :: "string \<Rightarrow> PatchFile \<Rightarrow> string" where
  "manifestPath dir f = localizePath (joinPath dir (Name f))"

text \<open>What a run appended to the trace: the effects of \<open>w'\<close> after those of \<open>w\<close>.\<close>

definition newEffects :: "world \<Rightarrow> world \<Rightarrow> effect list" where
  "newEffects w w' = drop (length (trace w)) (trace w')"

text \<open>
  The staged and the final path of a planned file, as \<open>doPatch\<close> builds them, and
  the effects of one successful \<open>downloadFile\<close>.
\<close>

definition stagedPath :: "string \<Rightarrow> string \<Rightarrow> string" where
  "stagedPath path fileName = localizePath (joinPath path fileName @ ''.tmp'')"

definition finalPath :: "string \<Rightarrow> string \<Rightarrow> string" where
  "finalPath path fileName = localizePath (joinPath path fileName)"

definition downloadEffects :: "string \<Rightarrow> string \<Rightarrow> string \<Rightarrow> effect list" where
  "downloadEffects remoteDir path fileName =
     [Created (stagedPath path fileName), Fetched (joinPath remoteDir fileName),
      Wrote (stagedPath path fileName)]"

text \<open>
  The download of a file fails when the staged file cannot be created, the remote
  repository does not deliver the file, or the copy to the staged file fails.
\<close>

definition downloadFails :: "env \<Rightarrow> string \<Rightarrow> string \<Rightarrow> string \<Rightarrow> bool" where
  "downloadFails e remoteDir path fileName =
     (fault e (Create (stagedPath path fileName)) \<noteq> None \<or>
      (case remoteFile e (joinPath remoteDir fileName) of
         Inl err \<Rightarrow> True
       | Inr contents \<Rightarrow> fault e (Copy (stagedPath path fileName)) \<noteq> None))"

text \<open>
  What the remote repository delivers for a file of a layer, and the files of a plan
  that \<open>doPatch\<close> promotes: those before the first one whose \<open>os.Rename\<close> is
  refused.  The names of a plan are \<^emph>\<open>separate\<close> when no name occurs twice and no
  file's final path is the staged path of a file of the plan.
\<close>

definition remoteContents :: "env \<Rightarrow> string \<Rightarrow> string \<Rightarrow> string" where
  "remoteContents e remoteDir fileName =
     (case remoteFile e (joinPath remoteDir fileName) of
        Inl err \<Rightarrow> []
      | Inr contents \<Rightarrow> contents)"

definition renameFails :: "env \<Rightarrow> string \<Rightarrow> string \<Rightarrow> bool" where
  "renameFails e path fileName =
     (fault e (Rename (stagedPath path fileName) (finalPath path fileName)) \<noteq> None)"

definition promoted :: "env \<Rightarrow> string \<Rightarrow> string list \<Rightarrow> string list" where
  "promoted e path patchFiles = takeWhile (\<lambda>f. \<not> renameFails e path f) patchFiles"

definition unpromoted :: "env \<Rightarrow> string \<Rightarrow> string list \<Rightarrow> string list" where
  "unpromoted e path patchFiles = dropWhile (\<lambda>f. \<not> renameFails e path f) patchFiles"

definition separate :: "string \<Rightarrow> string list \<Rightarrow> bool" where
  "separate path patchFiles =
     (distinct patchFiles \<and>
      (\<forall>f \<in> set patchFiles. \<forall>g \<in> set patchFiles. finalPath path f \<noteq> stagedPath path g))"

text \<open>The renames among a list of effects, in order.\<close>

fun renames :: "effect list \<Rightarrow> (string \<times> string) list" where
  "renames [] = []"
| "renames (Renamed oldpath newpath # rest) = (oldpath, newpath) # renames rest"
| "renames (Fetched p # rest) = renames rest"
| "renames (Created p # rest) = renames rest"
| "renames (Wrote p # rest) = renames rest"
| "renames (Removed p # rest) = renames rest"
| "renames (Progress0 # rest) = renames rest"
| "renames (Status m # rest) = renames rest"

text \<open>\<open>strings.HasSuffix\<close>: the name carries the staging suffix when it ends in \<open>.tmp\<close>.\<close>

definition HasSuffix :: "string \<Rightarrow> string \<Rightarrow> bool" where
  "HasSuffix s suffix =
     (length suffix \<le> length s \<and> drop (length s - length suffix) s = suffix)"

text \<open>
  The lock discipline over a sequence of steps: every read and every write of
  \<open>runningGames\<close> happens while the mutex is held.  The first argument says whether
  the mutex is held before the first step.
\<close>

fun underLock :: "bool \<Rightarrow> step list \<Rightarrow> bool" where
  "underLock held [] = True"
| "underLock held (MuxLock # rest) = underLock True rest"
| "underLock held (MuxUnlock # rest) = underLock False rest"
| "underLock held (ReadRunningGames # rest) = (held \<and> underLock held rest)"
| "underLock held (WriteRunningGames # rest) = (held \<and> underLock held rest)"
| "underLock held (Sleep # rest) = underLock held rest"
| "underLock held (Launch path flags # rest) = underLock held rest"
| "underLock held (LogError m # rest) = underLock held rest"

text \<open>The calls of \<open>launch\<close> among a sequence of steps, in order.\<close>

fun launches :: "step list \<Rightarrow> (string \<times> string list) list" where
  "launches [] = []"
| "launches (Launch path flags # rest) = (path, flags) # launches rest"
| "launches (MuxLock # rest) = launches rest"
| "launches (MuxUnlock # rest) = launches rest"
| "launches (ReadRunningGames # rest) = launches rest"
| "launches (WriteRunningGames # rest) = launches rest"
| "launches (Sleep # rest) = launches rest"
| "launches (LogError m # rest) = launches rest"

text \<open>The number of tracked running instances of an install.\<close>

definition runningFor :: "string \<Rightarrow> service \<Rightarrow> nat" where
  "runningFor gameID s = length (filter (\<lambda>running. GameID running = gameID) (runningGames s))"

text \<open>What a run of the supervisor appended to the steps.\<close>

definition newSteps :: "service \<Rightarrow> service \<Rightarrow> step list" where
  "newSteps s s' = drop (length (steps s)) (steps s')"

text \<open>
  The number of instances still to launch for an install: the desired count minus the
  number of tracked running instances of its id, in the 64-bit \<open>int\<close> of the code.
\<close>

definition instancesToLaunch :: "Game \<Rightarrow> service \<Rightarrow> 64 word" where
  "instancesToLaunch g s = Instances g - of_nat (runningFor (ID g) s)"

text \<open>
  A layer matches its manifest in an install directory when every manifest file
  outside the ignore list is found there with the manifest's checksum.
\<close>

definition layerMatches ::
  "(string \<Rightarrow> crc_result) \<Rightarrow> string \<Rightarrow> string list \<Rightarrow> PatchFile list \<Rightarrow> bool" where
  "layerMatches h dir filesToIgnore manifest =
     (\<forall>f \<in> set manifest. Name f \<notin> set filesToIgnore \<longrightarrow> localCRC h dir f = Hashed (CRC f))"

text \<open>
  What \<open>ValidateGameVersions\<close> checks of one install: \<open>validate113cVersion\<close>
  accepts it, the core layer matches, and each optional layer matches when it is
  enabled (leaving out \<open>BH.cfg\<close> under the override) and is reported as not
  installed when it is disabled.
\<close>

definition installUpToDate ::
  "env \<Rightarrow> world \<Rightarrow> PatchFile list \<Rightarrow> PatchFile list \<Rightarrow> PatchFile list \<Rightarrow> Game \<Rightarrow> bool" where
  "installUpToDate e w slashManifest maphackManifest HDManifest game =
     (validate113cVersion (Location game) = Inr True \<and>
      layerMatches (hashCRC32 e w) (Location game) [] slashManifest \<and>
      (if Maphack game
       then layerMatches (hashCRC32 e w) (Location game)
              (if OverrideBHCfg game then [''BH.cfg''] else []) maphackManifest
       else isMaphackInstalled e w (Location game) = Inr False) \<and>
      (if HD game
       then layerMatches (hashCRC32 e w) (Location game) [] HDManifest
       else isHDInstalled e w (Location game) = Inr False))"

text \<open>
  A check of an install ends in an error when the checksum lookup of a manifest file
  outside the ignore list fails, or when the marker file of a disabled optional layer
  cannot be examined.
\<close>

definition lookupFails ::
  "env \<Rightarrow> world \<Rightarrow> PatchFile list \<Rightarrow> PatchFile list \<Rightarrow> PatchFile list \<Rightarrow> Game \<Rightarrow> bool" where
  "lookupFails e w slashManifest maphackManifest HDManifest game =
     ((\<exists>f \<in> set slashManifest. unreadable (hashCRC32 e w) (Location game) f) \<or>
      (\<exists>f \<in> set maphackManifest.
          Name f \<notin> set (if OverrideBHCfg game then [''BH.cfg''] else []) \<and>
          unreadable (hashCRC32 e w) (Location game) f) \<or>
      (\<not> Maphack game \<and> isl (isMaphackInstalled e w (Location game))) \<or>
      (\<exists>f \<in> set HDManifest. unreadable (hashCRC32 e w) (Location game) f) \<or>
      (\<not> HD game \<and> isl (isHDInstalled e w (Location game))))"

text \<open>
  The guard of the listener's loop, \<open>state.pid != nil && g.PID == *state.pid\<close>, as a
  predicate on a tracked instance.
\<close>

definition exitedPid :: "int option \<Rightarrow> game \<Rightarrow> bool" where
  "exitedPid p g = (case p of None \<Rightarrow> False | Some n \<Rightarrow> PID g = n)"

section \<open>Example installs\<close>

text \<open>
  The spec's scenario: the manifest lists \<open>a.mpq\<close> with checksum \<open>AABBCCDD\<close> and
  1000 bytes, and the install lacks it; a second file \<open>b.mpq\<close> is present and up to
  date.
\<close>

definition a_mpq :: PatchFile where
  "a_mpq = \<lparr>Name = ''a.mpq'', CRC = ''AABBCCDD'', LastModified = [], ContentLength = 1000\<rparr>"

definition b_mpq :: PatchFile where
  "b_mpq = \<lparr>Name = ''b.mpq'', CRC = ''11223344'', LastModified = [], ContentLength = 500\<rparr>"

definition lookup_b_only :: "string \<Rightarrow> crc_result" where
  "lookup_b_only path = (if path = ''D/b.mpq'' then Hashed ''11223344'' else ErrCRCFileNotFound)"

text \<open>
  An environment in which no call fails and the checksum of a content is the content
  itself, and an install directory \<open>D\<close> that holds \<open>b.mpq\<close> only.
\<close>

definition plain_env :: env where
  "plain_env =
     \<lparr>fault = (\<lambda>c. None), remoteFile = (\<lambda>p. Inl (ErrOther ''404'')),
      partialWrite = (\<lambda>p. 0), dirListing = (\<lambda>d. Inr []), crcOf = (\<lambda>c. c),
      decodeManifest = (\<lambda>c. Inr []), configRead = Inr []\<rparr>"

definition install_b :: world where
  "install_b = \<lparr>disk = [''D/b.mpq'' \<mapsto> ''11223344''], trace = []\<rparr>"

text \<open>
  The maphack layer with the user's own \<open>BH.cfg\<close>: \<open>BH.dll\<close> is up to date,
  \<open>BH.cfg\<close> differs from the manifest's.
\<close>

definition bh_dll :: PatchFile where
  "bh_dll = \<lparr>Name = ''BH.dll'', CRC = ''dll-v2'', LastModified = [], ContentLength = 2000\<rparr>"

definition bh_cfg :: PatchFile where
  "bh_cfg = \<lparr>Name = ''BH.cfg'', CRC = ''cfg-v2'', LastModified = [], ContentLength = 100\<rparr>"

definition install_bh :: world where
  "install_bh = \<lparr>disk = [''D/BH.dll'' \<mapsto> ''dll-v2'', ''D/BH.cfg'' \<mapsto> ''mine''], trace = []\<rparr>"

text \<open>A remote repository that delivers \<open>1.13c/a.mpq\<close> and nothing else.\<close>

definition remote_env :: env where
  "remote_env =
     plain_env\<lparr>remoteFile :=
       (\<lambda>p. if p = ''1.13c/a.mpq'' then Inr ''AABBCCDD'' else Inl (ErrOther ''404''))\<rparr>"

text \<open>
  A remote repository that delivers both \<open>1.13c/a.mpq\<close> and \<open>1.13c/b.mpq\<close>; the
  same with an operating system that refuses to rename \<open>D/b.mpq.tmp\<close>; and an
  install directory \<open>D\<close> that holds an old \<open>b.mpq\<close>.
\<close>

definition remote_ab_env :: env where
  "remote_ab_env =
     plain_env\<lparr>remoteFile :=
       (\<lambda>p. if p = ''1.13c/a.mpq'' then Inr ''AABBCCDD''
            else if p = ''1.13c/b.mpq'' then Inr ''11223344''
            else Inl (ErrOther ''404''))\<rparr>"

definition rename_denied_env :: env where
  "rename_denied_env =
     remote_ab_env\<lparr>fault :=
       (\<lambda>c. if c = Rename ''D/b.mpq.tmp'' ''D/b.mpq'' then Some (ErrOther ''denied'')
            else None)\<rparr>"

definition install_old_b :: world where
  "install_old_b = \<lparr>disk = [''D/b.mpq'' \<mapsto> ''00000000''], trace = []\<rparr>"

text \<open>
  A remote repository that delivers the base manifest (listing \<open>a.mpq\<close>) but not the
  file itself, and an install directory that cannot be listed.
\<close>

definition broken_env :: env where
  "broken_env =
     plain_env\<lparr>remoteFile :=
         (\<lambda>p. if p = ''1.13c/manifest.json'' then Inr ''manifest'' else Inl (ErrOther ''404'')),
       dirListing := (\<lambda>d. Inl (ErrOther ''denied'')),
       decodeManifest := (\<lambda>c. Inr [a_mpq])\<rparr>"

text \<open>
  An install directory after a failed patch: the staged \<open>a.mpq.tmp\<close>, the installed
  \<open>b.mpq\<close>, and a file of the user's whose name has \<open>.tmp\<close> in the middle.
\<close>

definition tmp_env :: env where
  "tmp_env = plain_env\<lparr>dirListing := (\<lambda>d. Inr [''a.mpq.tmp'', ''b.mpq'', ''d2.tmp.bak''])\<rparr>"

definition install_tmp :: world where
  "install_tmp =
     \<lparr>disk = [''D/a.mpq.tmp'' \<mapsto> ''AABB'', ''D/b.mpq'' \<mapsto> ''11223344'',
              ''D/d2.tmp.bak'' \<mapsto> ''keep''],
      trace = []\<rparr>"

text \<open>
  A configuration of one install \<open>X\<close> with a desired count of three, and a service
  that tracks two running instances of it.
\<close>

definition game_X :: Game where
  "game_X = \<lparr>ID = ''X'', Location = ''D'', Instances = 3, Flags = [''-w''],
             Maphack = False, HD = False, OverrideBHCfg = False\<rparr>"

definition config_X :: env where
  "config_X = plain_env\<lparr>configRead := Inr [game_X]\<rparr>"

definition two_running :: service where
  "two_running =
     \<lparr>runningGames = [\<lparr>PID = 1, GameID = ''X''\<rparr>, \<lparr>PID = 1, GameID = ''X''\<rparr>], steps = []\<rparr>"

text \<open>Three tracked instances, two of them with the process identifier 1.\<close>

definition three_running :: service where
  "three_running =
     \<lparr>runningGames = [\<lparr>PID = 1, GameID = ''X''\<rparr>, \<lparr>PID = 1, GameID = ''Y''\<rparr>,
                      \<lparr>PID = 2, GameID = ''Z''\<rparr>],
      steps = []\<rparr>"

definition exited_1 :: execState where
  "exited_1 = \<lparr>state_pid = Some 1, state_err = None\<rparr>"

text \<open>
  A remote repository whose base manifest lists \<open>a.mpq\<close> and whose other manifests
  are empty, with the one install \<open>X\<close> configured in the directory \<open>D\<close>; and an
  install directory without any file.
\<close>

definition base_env :: env where
  "base_env =
     plain_env\<lparr>remoteFile := (\<lambda>p. if p = ''1.13c/manifest.json'' then Inr ''base'' else Inr ''none''),
       decodeManifest := (\<lambda>c. if c = ''base'' then Inr [a_mpq] else Inr []),
       configRead := Inr [game_X]\<rparr>"

definition empty_install :: world where
  "empty_install = \<lparr>disk = Map.empty, trace = []\<rparr>"

text \<open>
  A remote repository with a core manifest listing \<open>a.mpq\<close>, a maphack manifest
  listing \<open>BH.dll\<close> and \<open>BH.cfg\<close>, and an HD manifest listing \<open>D2HD.dll\<close>.
  Two installs are configured, in this order: \<open>M\<close> in the directory \<open>D\<close>, with
  maphack enabled, the user's own \<open>BH.cfg\<close> and HD disabled; \<open>N\<close> in the
  directory \<open>E\<close>, with maphack disabled and HD enabled.  In \<open>installs_current\<close>
  both are up to date; in \<open>installs_stale\<close> the core file \<open>a.mpq\<close> of the second
  install has another checksum than the manifest's.
\<close>

definition d2hd_dll :: PatchFile where
  "d2hd_dll = \<lparr>Name = ''D2HD.dll'', CRC = ''hd-v1'', LastModified = [], ContentLength = 3000\<rparr>"

definition game_M :: Game where
  "game_M = \<lparr>ID = ''M'', Location = ''D'', Instances = 1, Flags = [],
             Maphack = True, HD = False, OverrideBHCfg = True\<rparr>"

definition game_N :: Game where
  "game_N = \<lparr>ID = ''N'', Location = ''E'', Instances = 1, Flags = [],
             Maphack = False, HD = True, OverrideBHCfg = False\<rparr>"

definition layers_env :: env where
  "layers_env =
     plain_env\<lparr>remoteFile :=
         (\<lambda>p. if p = ''current/manifest.json'' then Inr ''core''
              else if p = ''maphack/manifest.json'' then Inr ''maphack''
              else if p = ''hd/manifest.json'' then Inr ''hd''
              else Inl (ErrOther ''404'')),
       decodeManifest :=
         (\<lambda>c. if c = ''core'' then Inr [a_mpq]
              else if c = ''maphack'' then Inr [bh_dll, bh_cfg]
              else if c = ''hd'' then Inr [d2hd_dll]
              else Inl (ErrOther ''json'')),
       configRead := Inr [game_M, game_N]\<rparr>"

definition installs_current :: world where
  "installs_current =
     \<lparr>disk = [''D/a.mpq'' \<mapsto> ''AABBCCDD'', ''D/BH.dll'' \<mapsto> ''dll-v2'',
              ''D/BH.cfg'' \<mapsto> ''mine'', ''E/a.mpq'' \<mapsto> ''AABBCCDD'',
              ''E/D2HD.dll'' \<mapsto> ''hd-v1''],
      trace = []\<rparr>"

definition installs_stale :: world where
  "installs_stale =
     \<lparr>disk = [''D/a.mpq'' \<mapsto> ''AABBCCDD'', ''D/BH.dll'' \<mapsto> ''dll-v2'',
              ''D/BH.cfg'' \<mapsto> ''mine'', ''E/a.mpq'' \<mapsto> ''00000000'',
              ''E/D2HD.dll'' \<mapsto> ''hd-v1''],
      trace = []\<rparr>"

section \<open>Properties of the diff planner\<close>

lemma ignoredName_iff: "ignoredName name ignores = (name \<in> set ignores)"
  by (induction ignores) auto

lemma ignore_guard:
  "(ign \<noteq> [] \<and> ignoredName name ign) = (name \<in> set ign)"
  by (cases ign) (auto simp: ignoredName_iff)

lemma getFilesToPatch_loop_Inr:
  "getFilesToPatch_loop h d ign files sp tcl = Inr (names, len) \<Longrightarrow>
     names = sp @ map Name (filter (planned h d ign) files) \<and>
     len = tcl + sum_list (map ContentLength (filter (planned h d ign) files)) \<and>
     (\<forall>f \<in> set files. Name f \<notin> set ign \<longrightarrow> \<not> unreadable h d f)"
proof (induction files arbitrary: sp tcl)
  case Nil
  then show ?case by simp
next
  case (Cons f files)
  show ?case
  proof (cases "Name f \<in> set ign")
    case True
    with Cons.prems have "getFilesToPatch_loop h d ign files sp tcl = Inr (names, len)"
      by (auto simp: ignore_guard)
    from Cons.IH [OF this] True show ?thesis
      by (simp add: planned_def)
  next
    case False
    note notign = this
    show ?thesis
    proof (cases "h (localizePath (joinPath d (Name f)))")
      case (Hashed hashed)
      show ?thesis
      proof (cases "hashed = CRC f")
        case True
        with Cons.prems notign Hashed
        have "getFilesToPatch_loop h d ign files sp tcl = Inr (names, len)"
          by (simp add: ignore_guard)
        from Cons.IH [OF this] notign Hashed True show ?thesis
          by (simp add: planned_def stale_def unreadable_def localCRC_def)
      next
        case False
        with Cons.prems notign Hashed
        have "getFilesToPatch_loop h d ign files (sp @ [Name f]) (tcl + ContentLength f)
                = Inr (names, len)"
          by (simp add: ignore_guard)
        from Cons.IH [OF this] notign Hashed False show ?thesis
          by (simp add: planned_def stale_def unreadable_def localCRC_def add.assoc)
      qed
    next
      case ErrCRCFileNotFound
      with Cons.prems notign
      have "getFilesToPatch_loop h d ign files (sp @ [Name f]) (tcl + ContentLength f)
              = Inr (names, len)"
        by (simp add: ignore_guard)
      from Cons.IH [OF this] notign ErrCRCFileNotFound show ?thesis
        by (simp add: planned_def stale_def unreadable_def localCRC_def add.assoc)
    next
      case (HashError err)
      with Cons.prems notign show ?thesis
        by (simp add: ignore_guard)
    qed
  qed
qed

lemma getFilesToPatch_loop_readable:
  "\<forall>f \<in> set files. Name f \<notin> set ign \<longrightarrow> \<not> unreadable h d f \<Longrightarrow>
     getFilesToPatch_loop h d ign files sp tcl =
       Inr (sp @ map Name (filter (planned h d ign) files),
            tcl + sum_list (map ContentLength (filter (planned h d ign) files)))"
proof (induction files arbitrary: sp tcl)
  case Nil
  then show ?case by simp
next
  case (Cons f files)
  then show ?case
    by (cases "h (localizePath (joinPath d (Name f)))")
       (auto simp: ignore_guard planned_def stale_def unreadable_def localCRC_def add.assoc)
qed

lemma getFilesToPatch_loop_Inl:
  "getFilesToPatch_loop h d ign files sp tcl = Inl err \<Longrightarrow>
     \<exists>f \<in> set files. Name f \<notin> set ign \<and> localCRC h d f = HashError err"
proof (induction files arbitrary: sp tcl)
  case Nil
  then show ?case by simp
next
  case (Cons f files)
  then show ?case
    by (cases "h (localizePath (joinPath d (Name f)))")
       (auto simp: ignore_guard localCRC_def split: if_splits)
qed

text \<open>
  The \<open>int64\<close> sum of non-negative lengths is their sum as integers, unless that
  sum is \<open>2^63\<close> or more.
\<close>

lemma sint_sum_list:
  fixes ws :: "64 word list"
  assumes "\<forall>w \<in> set ws. 0 \<le> sint w" and "sum_list (map sint ws) < 2 ^ 63"
  shows "sint (sum_list ws) = sum_list (map sint ws)"
  using assms
proof (induction ws)
  case Nil
  then show ?case by simp
next
  case (Cons w ws)
  then have w: "0 \<le> sint w" and nn: "\<forall>w \<in> set ws. 0 \<le> sint w"
    and bound: "sint w + sum_list (map sint ws) < 2 ^ 63"
    by simp_all
  from nn have "0 \<le> sum_list (map sint ws)" by (intro sum_list_nonneg) auto
  with w bound have "sum_list (map sint ws) < 2 ^ 63" by simp
  with Cons.IH nn have ih: "sint (sum_list ws) = sum_list (map sint ws)" by simp
  from w \<open>0 \<le> sum_list (map sint ws)\<close> bound ih
  have "- (2 ^ 63) \<le> sint w + sint (sum_list ws)" "sint w + sint (sum_list ws) < 2 ^ 63"
    by simp_all
  then have "signed_take_bit 63 (sint w + sint (sum_list ws)) = sint w + sint (sum_list ws)"
    by (rule signed_take_bit_int_eq_self)
  with ih show ?case by (simp add: sint_word_add)
qed

text \<open>
  C1.  Whenever \<open>getFilesToPatch\<close> returns a plan, the names are those of the
  planned manifest files (not named in the ignore list, and either not found locally
  or with a checksum other than the manifest's), in manifest order, and the total is
  the sum of their content lengths, added as the \<open>int64\<close> the code adds them in;
  it is their sum as integers when no length is negative and that sum is below
  \<open>2^63\<close>.
  A plan is returned exactly when no file outside the ignore list is unreadable;
  otherwise the error of such a file is returned.  With an empty ignore list the plan
  is empty exactly when every manifest file is found locally with the manifest's
  checksum.
\<close>

theorem getFilesToPatch_plan:
  "(\<forall>names len. getFilesToPatch h M D I = Inr (names, len) \<longrightarrow>
        names = map Name (filter (planned h D I) M) \<and>
        len = sum_list (map ContentLength (filter (planned h D I) M))) \<and>
   ((\<exists>names len. getFilesToPatch h M D I = Inr (names, len)) \<longleftrightarrow>
        (\<forall>f \<in> set M. Name f \<notin> set I \<longrightarrow> \<not> unreadable h D f)) \<and>
   (\<forall>err. getFilesToPatch h M D I = Inl err \<longrightarrow>
        (\<exists>f \<in> set M. Name f \<notin> set I \<and> localCRC h D f = HashError err)) \<and>
   ((\<exists>len. getFilesToPatch h M D [] = Inr ([], len)) \<longleftrightarrow>
        (\<forall>f \<in> set M. localCRC h D f = Hashed (CRC f))) \<and>
   (\<forall>names len. getFilesToPatch h M D I = Inr (names, len) \<and>
        (\<forall>f \<in> set M. 0 \<le> sint (ContentLength f)) \<and>
        (\<Sum>f\<leftarrow>filter (planned h D I) M. sint (ContentLength f)) < 2 ^ 63 \<longrightarrow>
        sint len = (\<Sum>f\<leftarrow>filter (planned h D I) M. sint (ContentLength f)))"
proof -
  have a: "\<forall>names len. getFilesToPatch h M D I = Inr (names, len) \<longrightarrow>
        names = map Name (filter (planned h D I) M) \<and>
        len = sum_list (map ContentLength (filter (planned h D I) M))"
    using getFilesToPatch_loop_Inr [of h D I M "[]" 0]
    by (simp add: getFilesToPatch_def)
  have b: "(\<exists>names len. getFilesToPatch h M D I = Inr (names, len)) \<longleftrightarrow>
        (\<forall>f \<in> set M. Name f \<notin> set I \<longrightarrow> \<not> unreadable h D f)"
    using getFilesToPatch_loop_Inr [of h D I M "[]" 0]
      getFilesToPatch_loop_readable [of M I h D "[]" 0]
    by (auto simp: getFilesToPatch_def)
  have c: "\<forall>err. getFilesToPatch h M D I = Inl err \<longrightarrow>
        (\<exists>f \<in> set M. Name f \<notin> set I \<and> localCRC h D f = HashError err)"
    using getFilesToPatch_loop_Inl [of h D I M "[]" 0]
    by (simp add: getFilesToPatch_def)
  have d: "(\<exists>len. getFilesToPatch h M D [] = Inr ([], len)) \<longleftrightarrow>
        (\<forall>f \<in> set M. localCRC h D f = Hashed (CRC f))"
  proof
    assume "\<exists>len. getFilesToPatch h M D [] = Inr ([], len)"
    then obtain len where r: "getFilesToPatch h M D [] = Inr ([], len)" ..
    from getFilesToPatch_loop_Inr [of h D "[]" M "[]" 0 "[]" len] r
    have e: "filter (planned h D []) M = []"
      and u: "\<forall>f \<in> set M. \<not> unreadable h D f"
      by (simp_all add: getFilesToPatch_def)
    show "\<forall>f \<in> set M. localCRC h D f = Hashed (CRC f)"
    proof
      fix f assume f: "f \<in> set M"
      with e have "\<not> planned h D [] f" by (simp add: filter_empty_conv)
      moreover from u f have "\<not> unreadable h D f" by simp
      ultimately show "localCRC h D f = Hashed (CRC f)"
        by (cases "localCRC h D f") (simp_all add: planned_def stale_def unreadable_def)
    qed
  next
    assume m: "\<forall>f \<in> set M. localCRC h D f = Hashed (CRC f)"
    then have "\<forall>f \<in> set M. Name f \<notin> set [] \<longrightarrow> \<not> unreadable h D f"
      by (simp add: unreadable_def)
    from getFilesToPatch_loop_readable [OF this, of "[]" 0]
    have "getFilesToPatch h M D [] =
            Inr (map Name (filter (planned h D []) M),
                 sum_list (map ContentLength (filter (planned h D []) M)))"
      by (simp add: getFilesToPatch_def)
    moreover from m have "filter (planned h D []) M = []"
      by (simp add: filter_empty_conv planned_def stale_def)
    ultimately show "\<exists>len. getFilesToPatch h M D [] = Inr ([], len)" by simp
  qed
  have e: "\<forall>names len. getFilesToPatch h M D I = Inr (names, len) \<and>
        (\<forall>f \<in> set M. 0 \<le> sint (ContentLength f)) \<and>
        (\<Sum>f\<leftarrow>filter (planned h D I) M. sint (ContentLength f)) < 2 ^ 63 \<longrightarrow>
        sint len = (\<Sum>f\<leftarrow>filter (planned h D I) M. sint (ContentLength f))"
  proof (intro allI impI)
    fix names len
    assume h: "getFilesToPatch h M D I = Inr (names, len) \<and>
        (\<forall>f \<in> set M. 0 \<le> sint (ContentLength f)) \<and>
        (\<Sum>f\<leftarrow>filter (planned h D I) M. sint (ContentLength f)) < 2 ^ 63"
    let ?ws = "map ContentLength (filter (planned h D I) M)"
    from h a have len: "len = sum_list ?ws" by blast
    from h have "\<forall>w \<in> set ?ws. 0 \<le> sint w" by auto
    moreover from h have "sum_list (map sint ?ws) < 2 ^ 63" by (simp add: comp_def)
    ultimately have "sint (sum_list ?ws) = sum_list (map sint ?ws)" by (rule sint_sum_list)
    with len show "sint len = (\<Sum>f\<leftarrow>filter (planned h D I) M. sint (ContentLength f))"
      by (simp add: comp_def)
  qed
  from a b c d e show ?thesis by blast
qed

theorem getFilesToPatch_plan_witness:
  "getFilesToPatch lookup_b_only [a_mpq, b_mpq] ''D'' [] = Inr ([''a.mpq''], 1000) \<and>
   \<not> unreadable lookup_b_only ''D'' a_mpq \<and> \<not> unreadable lookup_b_only ''D'' b_mpq \<and>
   planned lookup_b_only ''D'' [] a_mpq \<and> \<not> planned lookup_b_only ''D'' [] b_mpq \<and>
   (\<exists>len. getFilesToPatch lookup_b_only [b_mpq] ''D'' [] = Inr ([], len)) \<and>
   localCRC lookup_b_only ''D'' b_mpq = Hashed (CRC b_mpq) \<and>
   (\<Sum>f\<leftarrow>filter (planned lookup_b_only ''D'' []) [a_mpq, b_mpq]. sint (ContentLength f)) = 1000"
proof -
  have u: "\<not> unreadable lookup_b_only ''D'' a_mpq" "\<not> unreadable lookup_b_only ''D'' b_mpq"
    by (simp_all add: unreadable_def localCRC_def lookup_b_only_def a_mpq_def b_mpq_def
          localizePath_def joinPath_def)
  have p: "planned lookup_b_only ''D'' [] a_mpq" "\<not> planned lookup_b_only ''D'' [] b_mpq"
    by (simp_all add: planned_def stale_def localCRC_def lookup_b_only_def a_mpq_def b_mpq_def
          localizePath_def joinPath_def)
  have m: "localCRC lookup_b_only ''D'' b_mpq = Hashed (CRC b_mpq)"
    by (simp add: localCRC_def lookup_b_only_def b_mpq_def localizePath_def joinPath_def)
  note plan = getFilesToPatch_plan [of lookup_b_only "[a_mpq, b_mpq]" "''D''" "[]"]
  from plan u obtain names len
    where r: "getFilesToPatch lookup_b_only [a_mpq, b_mpq] ''D'' [] = Inr (names, len)"
    by auto
  with plan have "names = map Name (filter (planned lookup_b_only ''D'' []) [a_mpq, b_mpq])"
    and "len = sum_list (map ContentLength (filter (planned lookup_b_only ''D'' []) [a_mpq, b_mpq]))"
    by blast+
  with p have "names = [''a.mpq'']" "len = 1000"
    by (simp_all add: a_mpq_def)
  with r have r1: "getFilesToPatch lookup_b_only [a_mpq, b_mpq] ''D'' [] = Inr ([''a.mpq''], 1000)"
    by simp
  from getFilesToPatch_plan [of lookup_b_only "[b_mpq]" "''D''" "[]"] m
  have "\<exists>len. getFilesToPatch lookup_b_only [b_mpq] ''D'' [] = Inr ([], len)"
    by simp
  note empty = this
  have nn: "\<forall>f \<in> set [a_mpq, b_mpq]. 0 \<le> sint (ContentLength f)"
    by (simp add: a_mpq_def b_mpq_def)
  have sm: "(\<Sum>f\<leftarrow>filter (planned lookup_b_only ''D'' []) [a_mpq, b_mpq].
               sint (ContentLength f)) < 2 ^ 63"
    using p by (simp add: a_mpq_def)
  from plan r1 nn sm
  have "sint (1000 :: 64 word) =
          (\<Sum>f\<leftarrow>filter (planned lookup_b_only ''D'' []) [a_mpq, b_mpq]. sint (ContentLength f))"
    by blast
  then have total: "(\<Sum>f\<leftarrow>filter (planned lookup_b_only ''D'' []) [a_mpq, b_mpq].
                       sint (ContentLength f)) = 1000"
    by simp
  show ?thesis by (intro conjI r1 u p empty m total)
qed

section \<open>Properties of the layer reset\<close>

lemma manifestPath_inj: "manifestPath d f = manifestPath d g \<Longrightarrow> Name f = Name g"
  by (simp add: manifestPath_def localizePath_def joinPath_def)

lemma osRemove_cases:
  "osRemove e p w = (r, w') \<Longrightarrow>
     (r \<noteq> None \<and> w' = w) \<or>
     (r = None \<and> disk w p \<noteq> None \<and> fault e (Remove p) = None \<and>
      w' = emit (Removed p) (w\<lparr>disk := (disk w)(p := None)\<rparr>))"
  by (auto simp: osRemove_def split: option.splits if_splits)

lemma osStat_None: "osStat e w p = None \<longleftrightarrow> fault e (Stat p) = None \<and> disk w p \<noteq> None"
  by (auto simp: osStat_def split: option.splits)

lemma resetPatch_loop_effect:
  "resetPatch_loop e d ign fs w = (r, w') \<Longrightarrow>
     \<exists>ps. trace w' = trace w @ map Removed ps \<and>
          disk w' = (\<lambda>p. if p \<in> set ps then None else disk w p) \<and>
          (\<forall>p \<in> set ps. disk w p \<noteq> None \<and>
                (\<exists>f \<in> set fs. p = manifestPath d f \<and> Name f \<notin> set ign))"
proof (induction fs arbitrary: w)
  case Nil
  then have "w' = w" by simp
  then show ?case by (intro exI [of _ "[]"]) simp
next
  case (Cons f fs)
  let ?p = "manifestPath d f"
  show ?case
  proof (cases "osStat e w ?p")
    case (Some err)
    show ?thesis
    proof (cases "IsNotExist err")
      case True
      with Some Cons.prems have "resetPatch_loop e d ign fs w = (r, w')"
        by (simp add: manifestPath_def Let_def)
      from Cons.IH [OF this] show ?thesis by auto
    next
      case False
      with Some Cons.prems have "w' = w" by (simp add: manifestPath_def Let_def)
      then show ?thesis by (intro exI [of _ "[]"]) simp
    qed
  next
    case None
    show ?thesis
    proof (cases "Name f \<in> set ign")
      case True
      with None Cons.prems have "resetPatch_loop e d ign fs w = (r, w')"
        by (simp add: manifestPath_def ignoredName_iff Let_def)
      from Cons.IH [OF this] show ?thesis by auto
    next
      case False
      obtain r1 w1 where rm: "osRemove e ?p w = (r1, w1)" by (cases "osRemove e ?p w")
      from osRemove_cases [OF rm] show ?thesis
      proof
        assume a: "r1 \<noteq> None \<and> w1 = w"
        with None False rm Cons.prems have "w' = w"
          by (auto simp: manifestPath_def ignoredName_iff Let_def)
        then show ?thesis by (intro exI [of _ "[]"]) simp
      next
        assume a: "r1 = None \<and> disk w ?p \<noteq> None \<and> fault e (Remove ?p) = None \<and>
                   w1 = emit (Removed ?p) (w\<lparr>disk := (disk w)(?p := None)\<rparr>)"
        with None False rm Cons.prems have "resetPatch_loop e d ign fs w1 = (r, w')"
          by (auto simp: manifestPath_def ignoredName_iff Let_def)
        from Cons.IH [OF this] obtain ps where
          ps: "trace w' = trace w1 @ map Removed ps"
              "disk w' = (\<lambda>p. if p \<in> set ps then None else disk w1 p)"
              "\<forall>p \<in> set ps. disk w1 p \<noteq> None \<and>
                  (\<exists>f \<in> set fs. p = manifestPath d f \<and> Name f \<notin> set ign)"
          by blast
        from a have w1: "trace w1 = trace w @ [Removed ?p]" "disk w1 = (disk w)(?p := None)"
          by (simp_all add: emit_def)
        have "trace w' = trace w @ map Removed (?p # ps)"
          using ps(1) w1(1) by simp
        moreover have "disk w' = (\<lambda>p. if p \<in> set (?p # ps) then None else disk w p)"
          using ps(2) w1(2) by auto
        moreover have "\<forall>p \<in> set (?p # ps). disk w p \<noteq> None \<and>
                  (\<exists>g \<in> set (f # fs). p = manifestPath d g \<and> Name g \<notin> set ign)"
          using ps(3) w1(2) a False by (auto split: if_splits)
        ultimately show ?thesis by blast
      qed
    qed
  qed
qed

lemma resetPatch_loop_clean:
  "\<forall>f \<in> set fs. fault e (Stat (manifestPath d f)) = None \<and>
                 fault e (Remove (manifestPath d f)) = None \<Longrightarrow>
     \<exists>w'. resetPatch_loop e d ign fs w = (None, w') \<and>
          disk w' = (\<lambda>p. if p \<in> manifestPath d ` {f \<in> set fs. Name f \<notin> set ign}
                          then None else disk w p)"
proof (induction fs arbitrary: w)
  case Nil
  then show ?case by simp
next
  case (Cons f fs)
  let ?p = "manifestPath d f"
  from Cons.prems have nf: "fault e (Stat ?p) = None" "fault e (Remove ?p) = None"
    and rest: "\<forall>f \<in> set fs. fault e (Stat (manifestPath d f)) = None \<and>
                 fault e (Remove (manifestPath d f)) = None"
    by simp_all
  show ?case
  proof (cases "disk w ?p = None")
    case True
    with nf have step: "resetPatch_loop e d ign (f # fs) w = resetPatch_loop e d ign fs w"
      by (simp add: osStat_def manifestPath_def Let_def)
    from Cons.IH [OF rest, of w] obtain w' where
      w': "resetPatch_loop e d ign fs w = (None, w')"
          "disk w' = (\<lambda>p. if p \<in> manifestPath d ` {f \<in> set fs. Name f \<notin> set ign}
                          then None else disk w p)"
      by blast
    have "disk w' = (\<lambda>p. if p \<in> manifestPath d ` {g \<in> set (f # fs). Name g \<notin> set ign}
                          then None else disk w p)"
      using w'(2) True by (auto simp: fun_eq_iff)
    with step w'(1) show ?thesis by simp
  next
    case False
    show ?thesis
    proof (cases "Name f \<in> set ign")
      case True
      with nf False
      have step: "resetPatch_loop e d ign (f # fs) w = resetPatch_loop e d ign fs w"
        by (simp add: osStat_def manifestPath_def Let_def ignoredName_iff)
      from Cons.IH [OF rest, of w] obtain w' where
        w': "resetPatch_loop e d ign fs w = (None, w')"
            "disk w' = (\<lambda>p. if p \<in> manifestPath d ` {f \<in> set fs. Name f \<notin> set ign}
                            then None else disk w p)"
        by blast
      have "manifestPath d ` {g \<in> set (f # fs). Name g \<notin> set ign} =
            manifestPath d ` {g \<in> set fs. Name g \<notin> set ign}"
        using True by auto
      with step w' show ?thesis by simp
    next
      case notign: False
      define w1 where "w1 = emit (Removed ?p) (w\<lparr>disk := (disk w)(?p := None)\<rparr>)"
      from nf False notign
      have step: "resetPatch_loop e d ign (f # fs) w = resetPatch_loop e d ign fs w1"
        by (auto simp: osStat_def osRemove_def manifestPath_def Let_def ignoredName_iff w1_def)
      from Cons.IH [OF rest, of w1] obtain w' where
        w': "resetPatch_loop e d ign fs w1 = (None, w')"
            "disk w' = (\<lambda>p. if p \<in> manifestPath d ` {f \<in> set fs. Name f \<notin> set ign}
                            then None else disk w1 p)"
        by blast
      have "disk w1 = (disk w)(?p := None)" by (simp add: w1_def emit_def)
      with w'(2) notign
      have "disk w' = (\<lambda>p. if p \<in> manifestPath d ` {g \<in> set (f # fs). Name g \<notin> set ign}
                          then None else disk w p)"
        by (auto simp: fun_eq_iff)
      with step w'(1) show ?thesis by simp
    qed
  qed
qed

lemma plan_length_le:
  "getFilesToPatch h M D I = Inr (names, len) \<Longrightarrow> length names \<le> length M"
  using getFilesToPatch_loop_Inr [of h D I M "[]" 0 names len]
  by (simp add: getFilesToPatch_def)

lemma world_eqI: "disk w' = disk w \<Longrightarrow> trace w' = trace w \<Longrightarrow> w' = (w :: world)"
  by simp

lemma resetPatch_loop_absent:
  assumes "\<forall>f \<in> set fs. disk w (manifestPath d f) = None"
  shows "snd (resetPatch_loop e d ign fs w) = w"
proof -
  obtain r w' where rw: "resetPatch_loop e d ign fs w = (r, w')"
    by (cases "resetPatch_loop e d ign fs w")
  from resetPatch_loop_effect [OF rw] obtain ps where
    ps: "trace w' = trace w @ map Removed ps"
        "disk w' = (\<lambda>p. if p \<in> set ps then None else disk w p)"
        "\<forall>p \<in> set ps. disk w p \<noteq> None \<and>
             (\<exists>f \<in> set fs. p = manifestPath d f \<and> Name f \<notin> set ign)"
    by blast
  have "ps = []"
  proof (cases ps)
    case Nil
    then show ?thesis .
  next
    case (Cons p rest)
    then have "p \<in> set ps" by simp
    with ps(3) obtain f where "disk w p \<noteq> None" "f \<in> set fs" "p = manifestPath d f"
      by blast
    with assms show ?thesis by simp
  qed
  with ps have "w' = w" by (intro world_eqI) simp_all
  with rw show ?thesis by simp
qed

text \<open>
  C3.  \<open>resetPatch\<close> computes the diff first.  If the diff fails, its error is
  returned and nothing is deleted.  The number of stale files never exceeds the number
  of manifest files; when the two are equal (every manifest file is stale) the call
  returns without touching the world.  Whenever the disk differs at a path after the
  call, the file at that path was deleted, the path is that of a manifest file not
  named in the ignore list, and the diff had returned fewer stale files than the
  manifest has files.  In that case, when no \<open>os.Stat\<close> or \<open>os.Remove\<close> of a
  manifest path fails, the call succeeds and has deleted exactly the manifest files not
  named in the ignore list (an absent one is skipped).  In particular, when no manifest
  file is present the world is left as it was.
\<close>

theorem resetPatch_gate:
  "(\<forall>err. getFilesToPatch (hashCRC32 e w) M D I = Inl err \<longrightarrow>
        resetPatch e D M I w = (Some err, w)) \<and>
   (\<forall>names len. getFilesToPatch (hashCRC32 e w) M D I = Inr (names, len) \<longrightarrow>
        length names \<le> length M \<and>
        (length names = length M \<longrightarrow> resetPatch e D M I w = (None, w))) \<and>
   (\<forall>p. disk (snd (resetPatch e D M I w)) p \<noteq> disk w p \<longrightarrow>
        disk (snd (resetPatch e D M I w)) p = None \<and>
        (\<exists>f \<in> set M. p = manifestPath D f \<and> Name f \<notin> set I) \<and>
        (\<exists>names len. getFilesToPatch (hashCRC32 e w) M D I = Inr (names, len) \<and>
                      length names < length M)) \<and>
   (\<forall>names len. getFilesToPatch (hashCRC32 e w) M D I = Inr (names, len) \<and>
        length names < length M \<and>
        (\<forall>f \<in> set M. fault e (Stat (manifestPath D f)) = None \<and>
                        fault e (Remove (manifestPath D f)) = None) \<longrightarrow>
        fst (resetPatch e D M I w) = None \<and>
        disk (snd (resetPatch e D M I w)) =
          (\<lambda>p. if p \<in> manifestPath D ` {f \<in> set M. Name f \<notin> set I} then None
                else disk w p)) \<and>
   ((\<forall>f \<in> set M. disk w (manifestPath D f) = None) \<longrightarrow>
        snd (resetPatch e D M I w) = w)"
proof (intro conjI allI impI)
  fix err assume "getFilesToPatch (hashCRC32 e w) M D I = Inl err"
  then show "resetPatch e D M I w = (Some err, w)" by (simp add: resetPatch_def)
next
  fix names len assume "getFilesToPatch (hashCRC32 e w) M D I = Inr (names, len)"
  then show "length names \<le> length M" by (rule plan_length_le)
next
  fix names len
  assume "getFilesToPatch (hashCRC32 e w) M D I = Inr (names, len)"
    and "length names = length M"
  then show "resetPatch e D M I w = (None, w)" by (simp add: resetPatch_def)
next
  fix p assume ch: "disk (snd (resetPatch e D M I w)) p \<noteq> disk w p"
  show "disk (snd (resetPatch e D M I w)) p = None"
    and "\<exists>f \<in> set M. p = manifestPath D f \<and> Name f \<notin> set I"
    and "\<exists>names len. getFilesToPatch (hashCRC32 e w) M D I = Inr (names, len) \<and>
                      length names < length M"
  proof -
    from ch obtain names len where
      plan: "getFilesToPatch (hashCRC32 e w) M D I = Inr (names, len)"
      by (cases "getFilesToPatch (hashCRC32 e w) M D I") (auto simp: resetPatch_def)
    from ch plan have ne: "length names \<noteq> length M"
      by (auto simp: resetPatch_def)
    with plan_length_le [OF plan] have lt: "length names < length M" by simp
    from plan ne have run: "resetPatch e D M I w = resetPatch_loop e D I M w"
      by (simp add: resetPatch_def)
    obtain r w' where rw: "resetPatch_loop e D I M w = (r, w')"
      by (cases "resetPatch_loop e D I M w")
    from resetPatch_loop_effect [OF rw] obtain ps where
      ps: "disk w' = (\<lambda>p. if p \<in> set ps then None else disk w p)"
          "\<forall>p \<in> set ps. disk w p \<noteq> None \<and>
               (\<exists>f \<in> set M. p = manifestPath D f \<and> Name f \<notin> set I)"
      by blast
    from ch run rw ps(1) have "p \<in> set ps" by (auto split: if_splits)
    with ps run rw show "disk (snd (resetPatch e D M I w)) p = None"
      and "\<exists>f \<in> set M. p = manifestPath D f \<and> Name f \<notin> set I"
      by auto
    from plan lt show "\<exists>names len. getFilesToPatch (hashCRC32 e w) M D I = Inr (names, len) \<and>
                      length names < length M" by blast
  qed
next
  fix names len
  assume a: "getFilesToPatch (hashCRC32 e w) M D I = Inr (names, len) \<and>
        length names < length M \<and>
        (\<forall>f \<in> set M. fault e (Stat (manifestPath D f)) = None \<and>
                        fault e (Remove (manifestPath D f)) = None)"
  then have run: "resetPatch e D M I w = resetPatch_loop e D I M w"
    by (simp add: resetPatch_def)
  from a resetPatch_loop_clean [of M e D I w] obtain w' where
    "resetPatch_loop e D I M w = (None, w')"
    "disk w' = (\<lambda>p. if p \<in> manifestPath D ` {f \<in> set M. Name f \<notin> set I} then None
                else disk w p)"
    by blast
  with run show "fst (resetPatch e D M I w) = None"
    and "disk (snd (resetPatch e D M I w)) =
          (\<lambda>p. if p \<in> manifestPath D ` {f \<in> set M. Name f \<notin> set I} then None
                else disk w p)"
    by simp_all
next
  assume z: "\<forall>f \<in> set M. disk w (manifestPath D f) = None"
  show "snd (resetPatch e D M I w) = w"
    using resetPatch_loop_absent [OF z, of e I]
    by (auto simp: resetPatch_def split: sum.splits)
qed

theorem resetPatch_gate_witness:
  "getFilesToPatch (hashCRC32 plain_env install_b) [a_mpq] ''D'' [] = Inr ([''a.mpq''], 1000) \<and>
   resetPatch plain_env ''D'' [a_mpq] [] install_b = (None, install_b) \<and>
   getFilesToPatch (hashCRC32 plain_env install_b) [b_mpq] ''D'' [] = Inr ([], 0) \<and>
   fst (resetPatch plain_env ''D'' [b_mpq] [] install_b) = None \<and>
   disk install_b ''D/b.mpq'' = Some ''11223344'' \<and>
   disk (snd (resetPatch plain_env ''D'' [b_mpq] [] install_b)) ''D/b.mpq'' = None"
proof -
  have pa: "getFilesToPatch (hashCRC32 plain_env install_b) [a_mpq] ''D'' [] =
              Inr ([''a.mpq''], 1000)"
    by (simp add: getFilesToPatch_def hashCRC32_def plain_env_def install_b_def a_mpq_def
          localizePath_def joinPath_def)
  have pb: "getFilesToPatch (hashCRC32 plain_env install_b) [b_mpq] ''D'' [] = Inr ([], 0)"
    by (simp add: getFilesToPatch_def hashCRC32_def plain_env_def install_b_def b_mpq_def
          localizePath_def joinPath_def)
  have nofault: "\<forall>f \<in> set [b_mpq]. fault plain_env (Stat (manifestPath ''D'' f)) = None \<and>
                        fault plain_env (Remove (manifestPath ''D'' f)) = None"
    by (simp add: plain_env_def)
  have d: "disk install_b ''D/b.mpq'' = Some ''11223344''"
    by (simp add: install_b_def)
  have la: "length [''a.mpq''] = length [a_mpq]" and lb: "length ([] :: string list) < length [b_mpq]"
    by simp_all
  from resetPatch_gate [of plain_env install_b "[a_mpq]" "''D''" "[]"] pa la
  have ra: "resetPatch plain_env ''D'' [a_mpq] [] install_b = (None, install_b)"
    by blast
  from resetPatch_gate [of plain_env install_b "[b_mpq]" "''D''" "[]"] pb lb nofault
  have rb: "fst (resetPatch plain_env ''D'' [b_mpq] [] install_b) = None"
    and db: "disk (snd (resetPatch plain_env ''D'' [b_mpq] [] install_b)) =
          (\<lambda>p. if p \<in> manifestPath ''D'' ` {f \<in> set [b_mpq]. Name f \<notin> set []} then None
                else disk install_b p)"
    by blast+
  from fun_cong [OF db, of "''D/b.mpq''"]
  have "disk (snd (resetPatch plain_env ''D'' [b_mpq] [] install_b)) ''D/b.mpq'' = None"
    by (simp add: manifestPath_def localizePath_def joinPath_def b_mpq_def)
  with pa pb ra rb d show ?thesis by blast
qed

section \<open>The ignore list\<close>

lemma resetPatch_effect:
  "resetPatch e D M I w = (r, w') \<Longrightarrow>
     \<exists>ps. trace w' = trace w @ map Removed ps \<and>
          disk w' = (\<lambda>p. if p \<in> set ps then None else disk w p) \<and>
          (\<forall>p \<in> set ps. disk w p \<noteq> None \<and>
                (\<exists>f \<in> set M. p = manifestPath D f \<and> Name f \<notin> set I))"
proof (cases "getFilesToPatch (hashCRC32 e w) M D I")
  case (Inl err)
  assume "resetPatch e D M I w = (r, w')"
  with Inl have "w' = w" by (simp add: resetPatch_def)
  then show ?thesis by (intro exI [of _ "[]"]) simp
next
  case (Inr plan)
  assume run: "resetPatch e D M I w = (r, w')"
  show ?thesis
  proof (cases "length (fst plan) = length M")
    case True
    with Inr run have "w' = w" by (simp add: resetPatch_def split: prod.splits)
    then show ?thesis by (intro exI [of _ "[]"]) simp
  next
    case False
    with Inr run have "resetPatch_loop e D I M w = (r, w')"
      by (simp add: resetPatch_def split: prod.splits)
    then show ?thesis by (rule resetPatch_loop_effect)
  qed
qed

text \<open>
  C6.  A name in the ignore list is never among the names of a plan that
  \<open>getFilesToPatch\<close> returns, whatever the checksum lookup says of the file, and
  \<open>resetPatch\<close> neither removes the file of that name nor changes the disk at its
  path, whatever the disk holds and whichever calls fail.
\<close>

theorem ignored_files_untouched:
  "n \<in> set I \<Longrightarrow>
     (\<forall>names len. getFilesToPatch h M D I = Inr (names, len) \<longrightarrow> n \<notin> set names) \<and>
     disk (snd (resetPatch e D M I w)) (localizePath (joinPath D n)) =
       disk w (localizePath (joinPath D n)) \<and>
     Removed (localizePath (joinPath D n)) \<notin> set (newEffects w (snd (resetPatch e D M I w)))"
proof -
  assume n: "n \<in> set I"
  have plan: "\<forall>names len. getFilesToPatch h M D I = Inr (names, len) \<longrightarrow> n \<notin> set names"
  proof (intro allI impI)
    fix names len assume "getFilesToPatch h M D I = Inr (names, len)"
    with getFilesToPatch_loop_Inr [of h D I M "[]" 0 names len]
    have "names = map Name (filter (planned h D I) M)"
      by (simp add: getFilesToPatch_def)
    with n show "n \<notin> set names" by (auto simp: planned_def)
  qed
  obtain r w' where run: "resetPatch e D M I w = (r, w')"
    by (cases "resetPatch e D M I w")
  from resetPatch_effect [OF run] obtain ps where
    ps: "trace w' = trace w @ map Removed ps"
        "disk w' = (\<lambda>p. if p \<in> set ps then None else disk w p)"
        "\<forall>p \<in> set ps. disk w p \<noteq> None \<and>
             (\<exists>f \<in> set M. p = manifestPath D f \<and> Name f \<notin> set I)"
    by blast
  have notin: "localizePath (joinPath D n) \<notin> set ps"
  proof
    assume "localizePath (joinPath D n) \<in> set ps"
    with ps(3) obtain f where "localizePath (joinPath D n) = manifestPath D f"
      and f: "Name f \<notin> set I" by blast
    then have "n = Name f" by (simp add: manifestPath_def localizePath_def joinPath_def)
    with n f show False by simp
  qed
  from ps(1) have "newEffects w w' = map Removed ps" by (simp add: newEffects_def)
  with notin ps(2) run plan show ?thesis by auto
qed

theorem ignored_files_untouched_witness:
  "''BH.cfg'' \<in> set [''BH.cfg''] \<and>
   getFilesToPatch (hashCRC32 plain_env install_bh) [bh_dll, bh_cfg] ''D'' [''BH.cfg''] =
     Inr ([], 0) \<and>
   disk (snd (resetPatch plain_env ''D'' [bh_dll, bh_cfg] [''BH.cfg''] install_bh)) ''D/BH.cfg'' =
     Some ''mine'' \<and>
   disk (snd (resetPatch plain_env ''D'' [bh_dll, bh_cfg] [''BH.cfg''] install_bh)) ''D/BH.dll'' =
     None"
proof -
  have m: "''BH.cfg'' \<in> set [''BH.cfg'']" by simp
  have p: "getFilesToPatch (hashCRC32 plain_env install_bh) [bh_dll, bh_cfg] ''D'' [''BH.cfg''] =
     Inr ([], 0)"
    by (simp add: getFilesToPatch_def hashCRC32_def plain_env_def install_bh_def bh_dll_def
          bh_cfg_def localizePath_def joinPath_def)
  from ignored_files_untouched [OF m, of "hashCRC32 plain_env install_bh" "[bh_dll, bh_cfg]"
      "''D''" plain_env install_bh]
  have "disk (snd (resetPatch plain_env ''D'' [bh_dll, bh_cfg] [''BH.cfg''] install_bh))
          (localizePath (joinPath ''D'' ''BH.cfg'')) =
        disk install_bh (localizePath (joinPath ''D'' ''BH.cfg''))"
    by blast
  then have c: "disk (snd (resetPatch plain_env ''D'' [bh_dll, bh_cfg] [''BH.cfg''] install_bh))
          ''D/BH.cfg'' = Some ''mine''"
    by (simp add: localizePath_def joinPath_def install_bh_def)
  have d: "disk (snd (resetPatch plain_env ''D'' [bh_dll, bh_cfg] [''BH.cfg''] install_bh))
          ''D/BH.dll'' = None"
    by (simp add: resetPatch_def p)
       (simp add: osStat_def osRemove_def plain_env_def install_bh_def
          bh_dll_def bh_cfg_def localizePath_def joinPath_def emit_def Let_def)
  from m p c d show ?thesis by blast
qed

section \<open>Properties of the patch applier\<close>

lemma renames_append: "renames (xs @ ys) = renames xs @ renames ys"
  by (induction xs rule: renames.induct) simp_all

lemma renames_map_Renamed: "renames (map (\<lambda>t. Renamed (f t) (g t)) ts) = map (\<lambda>t. (f t, g t)) ts"
  by (induction ts) simp_all

lemma renames_downloadEffects: "renames (concat (map (downloadEffects rd p) fs)) = []"
  by (induction fs) (simp_all add: downloadEffects_def)

lemma strip_tmp: "take (length (stagedPath p f) - 4) (stagedPath p f) = finalPath p f"
  by (simp add: stagedPath_def finalPath_def localizePath_def)

lemma downloadFile_fail:
  "downloadFails e rd p f \<Longrightarrow>
     \<exists>err w' xs. downloadFile e f rd (stagedPath p f) w = (Some err, w') \<and>
       trace w' = trace w @ xs \<and> renames xs = [] \<and>
       (\<forall>q. q \<noteq> stagedPath p f \<longrightarrow> disk w' q = disk w q)"
  by (auto simp: downloadFails_def downloadFile_def osCreate_def GetFile_def ioCopy_def
        emit_def split: option.splits sum.splits)

lemma downloadFile_ok:
  "\<not> downloadFails e rd p f \<Longrightarrow>
     \<exists>w'. downloadFile e f rd (stagedPath p f) w = (None, w') \<and>
       trace w' = trace w @ downloadEffects rd p f \<and>
       (\<forall>q. q \<noteq> stagedPath p f \<longrightarrow> disk w' q = disk w q)"
  by (auto simp: downloadFails_def downloadFile_def osCreate_def GetFile_def ioCopy_def
        emit_def downloadEffects_def split: option.splits sum.splits)

lemma doPatch_download_Cons:
  "doPatch_download e rd p (f # fs) tmp w =
     (case downloadFile e f rd (stagedPath p f) w of
        (Some err, w1) \<Rightarrow> (Inl err, w1)
      | (None, w1) \<Rightarrow> doPatch_download e rd p fs (tmp @ [stagedPath p f]) w1)"
  unfolding stagedPath_def by (simp add: Let_def)

lemma doPatch_download_fail:
  "\<exists>f \<in> set fs. downloadFails e rd p f \<Longrightarrow>
     \<exists>err w' xs. doPatch_download e rd p fs tmp w = (Inl err, w') \<and>
       trace w' = trace w @ xs \<and> renames xs = [] \<and>
       (\<forall>q. q \<notin> stagedPath p ` set fs \<longrightarrow> disk w' q = disk w q)"
proof (induction fs arbitrary: tmp w)
  case Nil
  then show ?case by simp
next
  case (Cons f fs)
  show ?case
  proof (cases "downloadFails e rd p f")
    case True
    from downloadFile_fail [OF True, of w] obtain err w' xs where
      "downloadFile e f rd (stagedPath p f) w = (Some err, w')"
      "trace w' = trace w @ xs" "renames xs = []"
      "\<forall>q. q \<noteq> stagedPath p f \<longrightarrow> disk w' q = disk w q"
      by blast
    then show ?thesis by (simp add: doPatch_download_Cons del: doPatch_download.simps)
  next
    case False
    with Cons.prems have rest: "\<exists>f \<in> set fs. downloadFails e rd p f" by auto
    from downloadFile_ok [OF False, of w] obtain w1 where
      w1: "downloadFile e f rd (stagedPath p f) w = (None, w1)"
          "trace w1 = trace w @ downloadEffects rd p f"
          "\<forall>q. q \<noteq> stagedPath p f \<longrightarrow> disk w1 q = disk w q"
      by blast
    from Cons.IH [OF rest, of "tmp @ [stagedPath p f]" w1] obtain err w' xs where
      w': "doPatch_download e rd p fs (tmp @ [stagedPath p f]) w1 = (Inl err, w')"
          "trace w' = trace w1 @ xs" "renames xs = []"
          "\<forall>q. q \<notin> stagedPath p ` set fs \<longrightarrow> disk w' q = disk w1 q"
      by blast
    from w1(2) w'(2,3)
    have "trace w' = trace w @ (downloadEffects rd p f @ xs)"
      and "renames (downloadEffects rd p f @ xs) = []"
      by (simp_all add: renames_append downloadEffects_def)
    with w1 w' show ?thesis
      by (simp add: doPatch_download_Cons del: doPatch_download.simps)
  qed
qed

lemma doPatch_download_ok:
  "\<forall>f \<in> set fs. \<not> downloadFails e rd p f \<Longrightarrow>
     \<exists>w'. doPatch_download e rd p fs tmp w = (Inr (tmp @ map (stagedPath p) fs), w') \<and>
       trace w' = trace w @ concat (map (downloadEffects rd p) fs)"
proof (induction fs arbitrary: tmp w)
  case Nil
  then show ?case by simp
next
  case (Cons f fs)
  then have ok: "\<not> downloadFails e rd p f"
    and rest: "\<forall>f \<in> set fs. \<not> downloadFails e rd p f" by simp_all
  from downloadFile_ok [OF ok, of w] obtain w1 where
    w1: "downloadFile e f rd (stagedPath p f) w = (None, w1)"
        "trace w1 = trace w @ downloadEffects rd p f"
    by blast
  from Cons.IH [OF rest, of "tmp @ [stagedPath p f]" w1] obtain w' where
    "doPatch_download e rd p fs (tmp @ [stagedPath p f]) w1 =
       (Inr ((tmp @ [stagedPath p f]) @ map (stagedPath p) fs), w')"
    "trace w' = trace w1 @ concat (map (downloadEffects rd p) fs)"
    by blast
  with w1 show ?case
    by (simp add: doPatch_download_Cons del: doPatch_download.simps)
qed

lemma osRename_cases:
  assumes "osRename e a b w = (r, w')"
  shows "(r \<noteq> None \<and> w' = w) \<or> (r = None \<and> trace w' = trace w @ [Renamed a b])"
proof (cases "fault e (Rename a b)")
  case (Some err)
  with assms have "r = Some err" "w' = w" by (simp_all add: osRename_def)
  then show ?thesis by simp
next
  case None
  show ?thesis
  proof (cases "disk w a")
    case disk_None: None
    with None assms have "r = Some (ErrNotExist a)" "w' = w" by (simp_all add: osRename_def)
    then show ?thesis by simp
  next
    case (Some contents)
    with None assms show ?thesis by (auto simp: osRename_def emit_def)
  qed
qed

lemma doPatch_rename_trace:
  "doPatch_rename e (map (stagedPath p) fs) w = (r, w') \<Longrightarrow>
     \<exists>k \<le> length fs.
        trace w' = trace w @ map (\<lambda>f. Renamed (stagedPath p f) (finalPath p f)) (take k fs) \<and>
        (r = None \<longleftrightarrow> k = length fs)"
proof (induction fs arbitrary: w)
  case Nil
  then show ?case by simp
next
  case (Cons f fs)
  obtain r1 w1 where rn: "osRename e (stagedPath p f) (finalPath p f) w = (r1, w1)"
    by (cases "osRename e (stagedPath p f) (finalPath p f) w")
  from osRename_cases [OF rn] show ?case
  proof
    assume "r1 \<noteq> None \<and> w1 = w"
    with rn Cons.prems have "w' = w" "r \<noteq> None"
      by (auto simp: strip_tmp)
    then show ?thesis by (intro exI [of _ 0]) simp
  next
    assume a: "r1 = None \<and> trace w1 = trace w @ [Renamed (stagedPath p f) (finalPath p f)]"
    with rn Cons.prems have "doPatch_rename e (map (stagedPath p) fs) w1 = (r, w')"
      by (simp add: strip_tmp)
    from Cons.IH [OF this] obtain k where
      k: "k \<le> length fs"
         "trace w' = trace w1 @ map (\<lambda>f. Renamed (stagedPath p f) (finalPath p f)) (take k fs)"
         "r = None \<longleftrightarrow> k = length fs"
      by blast
    with a show ?thesis by (intro exI [of _ "Suc k"]) simp
  qed
qed

lemma stagedPath_inj: "stagedPath p f = stagedPath p g \<longleftrightarrow> f = g"
  by (simp add: stagedPath_def localizePath_def joinPath_def)

lemma finalPath_inj: "finalPath p f = finalPath p g \<longleftrightarrow> f = g"
  by (simp add: finalPath_def localizePath_def joinPath_def)

lemma downloadFile_ok_disk:
  "\<not> downloadFails e rd p f \<Longrightarrow>
     disk (snd (downloadFile e f rd (stagedPath p f) w)) =
       (disk w)(stagedPath p f \<mapsto> remoteContents e rd f)"
  by (auto simp: downloadFails_def downloadFile_def osCreate_def GetFile_def ioCopy_def
        emit_def remoteContents_def split: option.splits sum.splits)

lemma doPatch_download_disk:
  "\<forall>f \<in> set fs. \<not> downloadFails e rd p f \<Longrightarrow>
     (\<forall>f \<in> set fs. disk (snd (doPatch_download e rd p fs tmp w)) (stagedPath p f) =
                       Some (remoteContents e rd f)) \<and>
     (\<forall>q. q \<notin> stagedPath p ` set fs \<longrightarrow>
           disk (snd (doPatch_download e rd p fs tmp w)) q = disk w q)"
proof (induction fs arbitrary: tmp w)
  case Nil
  then show ?case by simp
next
  case (Cons f fs)
  then have ok: "\<not> downloadFails e rd p f"
    and rest: "\<forall>f \<in> set fs. \<not> downloadFails e rd p f" by simp_all
  from downloadFile_ok [OF ok, of w] obtain w1 where
    w1: "downloadFile e f rd (stagedPath p f) w = (None, w1)" by blast
  with downloadFile_ok_disk [OF ok, of w]
  have d1: "disk w1 = (disk w)(stagedPath p f \<mapsto> remoteContents e rd f)" by simp
  let ?w' = "snd (doPatch_download e rd p fs (tmp @ [stagedPath p f]) w1)"
  from w1 have run: "snd (doPatch_download e rd p (f # fs) tmp w) = ?w'"
    by (simp add: doPatch_download_Cons del: doPatch_download.simps)
  from Cons.IH [OF rest, of "tmp @ [stagedPath p f]" w1]
  have ih1: "\<forall>g \<in> set fs. disk ?w' (stagedPath p g) = Some (remoteContents e rd g)"
    and ih2: "\<forall>q. q \<notin> stagedPath p ` set fs \<longrightarrow> disk ?w' q = disk w1 q"
    by simp_all
  have "disk ?w' (stagedPath p f) = Some (remoteContents e rd f)"
  proof (cases "f \<in> set fs")
    case True
    with ih1 show ?thesis by simp
  next
    case False
    then have "stagedPath p f \<notin> stagedPath p ` set fs"
      by (auto simp: stagedPath_inj)
    with ih2 d1 show ?thesis by simp
  qed
  moreover have "\<forall>q. q \<notin> stagedPath p ` set (f # fs) \<longrightarrow> disk ?w' q = disk w q"
    using ih2 d1 by simp
  ultimately show ?case
    unfolding run using ih1 by simp
qed

lemma osRename_ok:
  "fault e (Rename a b) = None \<Longrightarrow> disk w a = Some c \<Longrightarrow>
     osRename e a b w =
       (None, emit (Renamed a b) (w\<lparr>disk := ((disk w)(a := None))(b \<mapsto> c)\<rparr>))"
  by (simp add: osRename_def)

lemma osRename_refused:
  "fault e (Rename a b) = Some err \<Longrightarrow> osRename e a b w = (Some err, w)"
  by (simp add: osRename_def)

lemma doPatch_rename_Cons:
  "doPatch_rename e (map (stagedPath p) (f # fs)) w =
     (case osRename e (stagedPath p f) (finalPath p f) w of
        (Some err, w1) \<Rightarrow> (Some err, w1)
      | (None, w1) \<Rightarrow> doPatch_rename e (map (stagedPath p) fs) w1)"
  by (simp add: strip_tmp)

lemma doPatch_rename_disk:
  "distinct fs \<Longrightarrow>
   \<forall>f \<in> set fs. \<forall>g \<in> set fs. finalPath p f \<noteq> stagedPath p g \<Longrightarrow>
   \<forall>f \<in> set fs. disk w (stagedPath p f) \<noteq> None \<Longrightarrow>
   doPatch_rename e (map (stagedPath p) fs) w = (r, w') \<Longrightarrow>
     trace w' = trace w @
        map (\<lambda>f. Renamed (stagedPath p f) (finalPath p f)) (promoted e p fs) \<and>
     (r = None \<longleftrightarrow> (\<forall>f \<in> set fs. \<not> renameFails e p f)) \<and>
     (\<forall>f \<in> set (promoted e p fs).
         disk w' (finalPath p f) = disk w (stagedPath p f) \<and> disk w' (stagedPath p f) = None) \<and>
     (\<forall>q. q \<notin> stagedPath p ` set (promoted e p fs) \<union> finalPath p ` set (promoted e p fs) \<longrightarrow>
           disk w' q = disk w q)"
proof (induction fs arbitrary: w)
  case Nil
  then show ?case by (simp add: promoted_def)
next
  case (Cons f fs)
  show ?case
  proof (cases "renameFails e p f")
    case True
    then obtain err where "fault e (Rename (stagedPath p f) (finalPath p f)) = Some err"
      by (auto simp: renameFails_def)
    from osRename_refused [OF this, of w] Cons.prems(4)
    have "r = Some err" "w' = w"
      by (simp_all add: doPatch_rename_Cons del: doPatch_rename.simps list.map)
    with True show ?thesis by (simp add: promoted_def)
  next
    case False
    then have nf: "fault e (Rename (stagedPath p f) (finalPath p f)) = None"
      by (simp add: renameFails_def)
    from Cons.prems(3) obtain c where c: "disk w (stagedPath p f) = Some c" by auto
    let ?w1 = "emit (Renamed (stagedPath p f) (finalPath p f))
                 (w\<lparr>disk := ((disk w)(stagedPath p f := None))(finalPath p f \<mapsto> c)\<rparr>)"
    from osRename_ok [OF nf c] Cons.prems(4)
    have run: "doPatch_rename e (map (stagedPath p) fs) ?w1 = (r, w')"
      by (simp add: doPatch_rename_Cons del: doPatch_rename.simps list.map)
    have d1: "disk ?w1 = ((disk w)(stagedPath p f := None))(finalPath p f \<mapsto> c)"
      and t1: "trace ?w1 = trace w @ [Renamed (stagedPath p f) (finalPath p f)]"
      by (simp_all add: emit_def)
    from Cons.prems(1) have dist: "distinct fs" and fnew: "f \<notin> set fs" by simp_all
    from Cons.prems(2) have sep: "\<forall>f \<in> set fs. \<forall>g \<in> set fs. finalPath p f \<noteq> stagedPath p g"
      and sepf: "\<forall>g \<in> set fs. finalPath p f \<noteq> stagedPath p g"
      and sepf': "\<forall>g \<in> set fs. finalPath p g \<noteq> stagedPath p f"
      and sepff: "finalPath p f \<noteq> stagedPath p f"
      by simp_all
    have keep: "disk ?w1 (stagedPath p g) = disk w (stagedPath p g)" if "g \<in> set fs" for g
    proof -
      from that fnew have "stagedPath p g \<noteq> stagedPath p f" by (auto simp: stagedPath_inj)
      moreover from that sepf have "stagedPath p g \<noteq> finalPath p f" by auto
      ultimately show ?thesis unfolding d1 by simp
    qed
    with Cons.prems(3) have pres: "\<forall>g \<in> set fs. disk ?w1 (stagedPath p g) \<noteq> None"
      by simp
    from Cons.IH [OF dist sep pres run]
    have ih1: "trace w' = trace ?w1 @
          map (\<lambda>f. Renamed (stagedPath p f) (finalPath p f)) (promoted e p fs)"
      and ih2: "r = None \<longleftrightarrow> (\<forall>f \<in> set fs. \<not> renameFails e p f)"
      and ih3: "\<forall>g \<in> set (promoted e p fs).
         disk w' (finalPath p g) = disk ?w1 (stagedPath p g) \<and> disk w' (stagedPath p g) = None"
      and ih4: "\<forall>q. q \<notin> stagedPath p ` set (promoted e p fs) \<union>
                      finalPath p ` set (promoted e p fs) \<longrightarrow> disk w' q = disk ?w1 q"
      by blast+
    have sub: "set (promoted e p fs) \<subseteq> set fs"
      by (auto simp: promoted_def dest: set_takeWhileD)
    have pf: "promoted e p (f # fs) = f # promoted e p fs"
      using False by (simp add: promoted_def)
    have a: "trace w' = trace w @
          map (\<lambda>f. Renamed (stagedPath p f) (finalPath p f)) (promoted e p (f # fs))"
      using ih1 t1 pf by simp
    have b: "r = None \<longleftrightarrow> (\<forall>g \<in> set (f # fs). \<not> renameFails e p g)"
      using ih2 False by simp
    have outF: "finalPath p f \<notin> stagedPath p ` set (promoted e p fs) \<union>
                  finalPath p ` set (promoted e p fs)"
      using sub sepf fnew by (auto simp: finalPath_inj)
    have outS: "stagedPath p f \<notin> stagedPath p ` set (promoted e p fs) \<union>
                  finalPath p ` set (promoted e p fs)"
      using sub sepf' fnew by (auto simp: stagedPath_inj)
    from ih4 outF have "disk w' (finalPath p f) = disk ?w1 (finalPath p f)" by blast
    then have f1: "disk w' (finalPath p f) = disk w (stagedPath p f)"
      unfolding d1 using c by simp
    from ih4 outS have "disk w' (stagedPath p f) = disk ?w1 (stagedPath p f)" by blast
    then have f2: "disk w' (stagedPath p f) = None"
      unfolding d1 using sepff by simp
    have cc: "\<forall>g \<in> set (promoted e p (f # fs)).
         disk w' (finalPath p g) = disk w (stagedPath p g) \<and> disk w' (stagedPath p g) = None"
    proof
      fix g assume "g \<in> set (promoted e p (f # fs))"
      then consider "g = f" | "g \<in> set (promoted e p fs)" unfolding pf by auto
      then show "disk w' (finalPath p g) = disk w (stagedPath p g) \<and>
                 disk w' (stagedPath p g) = None"
      proof cases
        case 1
        with f1 f2 show ?thesis by simp
      next
        case 2
        with sub have "g \<in> set fs" by auto
        from keep [OF this] ih3 2 show ?thesis by simp
      qed
    qed
    have dd: "\<forall>q. q \<notin> stagedPath p ` set (promoted e p (f # fs)) \<union>
                    finalPath p ` set (promoted e p (f # fs)) \<longrightarrow> disk w' q = disk w q"
    proof (intro allI impI)
      fix q assume q: "q \<notin> stagedPath p ` set (promoted e p (f # fs)) \<union>
                    finalPath p ` set (promoted e p (f # fs))"
      then have "q \<noteq> stagedPath p f" "q \<noteq> finalPath p f"
        and "q \<notin> stagedPath p ` set (promoted e p fs) \<union> finalPath p ` set (promoted e p fs)"
        unfolding pf by auto
      with ih4 have "disk w' q = disk ?w1 q" by blast
      also have "\<dots> = disk w q"
        unfolding d1 using \<open>q \<noteq> stagedPath p f\<close> \<open>q \<noteq> finalPath p f\<close> by simp
      finally show "disk w' q = disk w q" .
    qed
    show ?thesis by (intro conjI a b cc dd)
  qed
qed


lemma promoted_unpromoted:
  "distinct fs \<Longrightarrow>
     set (promoted e p fs) \<subseteq> set fs \<and> set (unpromoted e p fs) \<subseteq> set fs \<and>
     set (promoted e p fs) \<inter> set (unpromoted e p fs) = {}"
proof -
  assume "distinct fs"
  then have "distinct (promoted e p fs @ unpromoted e p fs)"
    by (simp add: promoted_def unpromoted_def)
  then have "set (promoted e p fs) \<inter> set (unpromoted e p fs) = {}"
    by simp
  moreover have "set (promoted e p fs) \<subseteq> set fs"
    by (auto simp: promoted_def dest: set_takeWhileD)
  moreover have "set (unpromoted e p fs) \<subseteq> set fs"
    by (auto simp: unpromoted_def dest: set_dropWhileD)
  ultimately show ?thesis by simp
qed

lemma doPatch_promotion:
  assumes ok: "\<forall>f \<in> set fs. \<not> downloadFails e rd p f" and sep: "separate p fs"
  shows "newEffects w (snd (doPatch e fs len rd p w)) =
           Progress0 # concat (map (downloadEffects rd p) fs) @
           map (\<lambda>f. Renamed (stagedPath p f) (finalPath p f)) (promoted e p fs)"
    and "fst (doPatch e fs len rd p w) = None \<longleftrightarrow> (\<forall>f \<in> set fs. \<not> renameFails e p f)"
    and "\<forall>f \<in> set (promoted e p fs).
           disk (snd (doPatch e fs len rd p w)) (finalPath p f) = Some (remoteContents e rd f) \<and>
           disk (snd (doPatch e fs len rd p w)) (stagedPath p f) = None"
    and "\<forall>f \<in> set (unpromoted e p fs).
           disk (snd (doPatch e fs len rd p w)) (stagedPath p f) = Some (remoteContents e rd f) \<and>
           disk (snd (doPatch e fs len rd p w)) (finalPath p f) = disk w (finalPath p f)"
    and "\<forall>q. q \<notin> stagedPath p ` set fs \<union> finalPath p ` set fs \<longrightarrow>
           disk (snd (doPatch e fs len rd p w)) q = disk w q"
proof -
  let ?w0 = "emit Progress0 w"
  from doPatch_download_ok [OF ok, of "[]" ?w0] obtain w1 where
    d: "doPatch_download e rd p fs [] ?w0 = (Inr (map (stagedPath p) fs), w1)"
       "trace w1 = trace ?w0 @ concat (map (downloadEffects rd p) fs)"
    by auto
  from doPatch_download_disk [OF ok, of "[]" ?w0] d(1)
  have s1: "\<forall>f \<in> set fs. disk w1 (stagedPath p f) = Some (remoteContents e rd f)"
    and k1: "\<forall>q. q \<notin> stagedPath p ` set fs \<longrightarrow> disk w1 q = disk w q"
    by (simp_all add: emit_def)
  obtain r w' where rn: "doPatch_rename e (map (stagedPath p) fs) w1 = (r, w')"
    by (cases "doPatch_rename e (map (stagedPath p) fs) w1")
  with d(1) have run: "doPatch e fs len rd p w = (r, w')"
    by (simp add: doPatch_def)
  from sep have dist: "distinct fs"
    and sp: "\<forall>f \<in> set fs. \<forall>g \<in> set fs. finalPath p f \<noteq> stagedPath p g"
    by (simp_all add: separate_def)
  from s1 have pres: "\<forall>f \<in> set fs. disk w1 (stagedPath p f) \<noteq> None" by simp
  from doPatch_rename_disk [OF dist sp pres rn]
  have t: "trace w' = trace w1 @
        map (\<lambda>f. Renamed (stagedPath p f) (finalPath p f)) (promoted e p fs)"
    and rr: "r = None \<longleftrightarrow> (\<forall>f \<in> set fs. \<not> renameFails e p f)"
    and pr: "\<forall>f \<in> set (promoted e p fs).
         disk w' (finalPath p f) = disk w1 (stagedPath p f) \<and> disk w' (stagedPath p f) = None"
    and fr: "\<forall>q. q \<notin> stagedPath p ` set (promoted e p fs) \<union>
                   finalPath p ` set (promoted e p fs) \<longrightarrow> disk w' q = disk w1 q"
    by blast+
  note pu = promoted_unpromoted [OF dist, of e p]
  from pu have psub: "set (promoted e p fs) \<subseteq> set fs"
    and usub: "set (unpromoted e p fs) \<subseteq> set fs"
    and disj: "set (promoted e p fs) \<inter> set (unpromoted e p fs) = {}"
    by simp_all
  from t d(2) show "newEffects w (snd (doPatch e fs len rd p w)) =
           Progress0 # concat (map (downloadEffects rd p) fs) @
           map (\<lambda>f. Renamed (stagedPath p f) (finalPath p f)) (promoted e p fs)"
    unfolding run by (simp add: newEffects_def emit_def)
  from rr show "fst (doPatch e fs len rd p w) = None \<longleftrightarrow> (\<forall>f \<in> set fs. \<not> renameFails e p f)"
    unfolding run by simp
  show "\<forall>f \<in> set (promoted e p fs).
           disk (snd (doPatch e fs len rd p w)) (finalPath p f) = Some (remoteContents e rd f) \<and>
           disk (snd (doPatch e fs len rd p w)) (stagedPath p f) = None"
    unfolding run using pr s1 psub by auto
  show "\<forall>f \<in> set (unpromoted e p fs).
           disk (snd (doPatch e fs len rd p w)) (stagedPath p f) = Some (remoteContents e rd f) \<and>
           disk (snd (doPatch e fs len rd p w)) (finalPath p f) = disk w (finalPath p f)"
  proof
    fix g assume g: "g \<in> set (unpromoted e p fs)"
    with usub have gin: "g \<in> set fs" by auto
    from g disj have gout: "g \<notin> set (promoted e p fs)" by auto
    have "stagedPath p g \<notin> finalPath p ` set (promoted e p fs)"
    proof
      assume "stagedPath p g \<in> finalPath p ` set (promoted e p fs)"
      then obtain x where "x \<in> set (promoted e p fs)" "stagedPath p g = finalPath p x"
        by auto
      with psub have "x \<in> set fs" "finalPath p x = stagedPath p g" by auto
      with sp gin show False by blast
    qed
    moreover from gout have "stagedPath p g \<notin> stagedPath p ` set (promoted e p fs)"
      by (auto simp: stagedPath_inj)
    ultimately have "stagedPath p g \<notin> stagedPath p ` set (promoted e p fs) \<union>
            finalPath p ` set (promoted e p fs)"
      by simp
    with fr have "disk w' (stagedPath p g) = disk w1 (stagedPath p g)" by blast
    with s1 gin have a: "disk w' (stagedPath p g) = Some (remoteContents e rd g)" by simp
    have "finalPath p g \<notin> stagedPath p ` set (promoted e p fs) \<union>
            finalPath p ` set (promoted e p fs)"
      using gout gin psub sp by (auto simp: finalPath_inj)
    with fr have "disk w' (finalPath p g) = disk w1 (finalPath p g)" by blast
    moreover have "finalPath p g \<notin> stagedPath p ` set fs"
      using gin sp by auto
    with k1 have "disk w1 (finalPath p g) = disk w (finalPath p g)" by blast
    ultimately have b: "disk w' (finalPath p g) = disk w (finalPath p g)" by simp
    from a b show "disk (snd (doPatch e fs len rd p w)) (stagedPath p g) =
                     Some (remoteContents e rd g) \<and>
                   disk (snd (doPatch e fs len rd p w)) (finalPath p g) = disk w (finalPath p g)"
      unfolding run by simp
  qed
  show "\<forall>q. q \<notin> stagedPath p ` set fs \<union> finalPath p ` set fs \<longrightarrow>
           disk (snd (doPatch e fs len rd p w)) q = disk w q"
  proof (intro allI impI)
    fix q assume q: "q \<notin> stagedPath p ` set fs \<union> finalPath p ` set fs"
    with psub have "q \<notin> stagedPath p ` set (promoted e p fs) \<union>
                      finalPath p ` set (promoted e p fs)" by auto
    with fr have "disk w' q = disk w1 q" by blast
    moreover from q k1 have "disk w1 q = disk w q" by auto
    ultimately show "disk (snd (doPatch e fs len rd p w)) q = disk w q"
      unfolding run by simp
  qed
qed


text \<open>
  C2, as stated, asks that once every download has succeeded every staged file is
  renamed to its final name.  \<open>doPatch\<close> returns at the first \<open>os.Rename\<close> that
  fails and undoes nothing.  With \<open>a.mpq\<close> and \<open>b.mpq\<close> planned, both downloaded,
  and the rename of \<open>D/b.mpq.tmp\<close> refused, the call returns the error with
  \<open>a.mpq\<close> promoted and \<open>b.mpq\<close> still staged beside its old version.
\<close>

theorem doPatch_partial_promotion:
  "\<not> downloadFails rename_denied_env ''1.13c'' ''D'' ''a.mpq'' \<and>
   \<not> downloadFails rename_denied_env ''1.13c'' ''D'' ''b.mpq'' \<and>
   fst (doPatch rename_denied_env [''a.mpq'', ''b.mpq''] 1500 ''1.13c'' ''D'' install_old_b) =
     Some (ErrOther ''denied'') \<and>
   renames (newEffects install_old_b
     (snd (doPatch rename_denied_env [''a.mpq'', ''b.mpq''] 1500 ''1.13c'' ''D'' install_old_b))) =
     [(''D/a.mpq.tmp'', ''D/a.mpq'')] \<and>
   disk (snd (doPatch rename_denied_env [''a.mpq'', ''b.mpq''] 1500 ''1.13c'' ''D'' install_old_b))
     ''D/a.mpq'' = Some ''AABBCCDD'' \<and>
   disk (snd (doPatch rename_denied_env [''a.mpq'', ''b.mpq''] 1500 ''1.13c'' ''D'' install_old_b))
     ''D/b.mpq.tmp'' = Some ''11223344'' \<and>
   disk (snd (doPatch rename_denied_env [''a.mpq'', ''b.mpq''] 1500 ''1.13c'' ''D'' install_old_b))
     ''D/b.mpq'' = Some ''00000000''"
proof -
  note ev = doPatch_def downloadFile_def osCreate_def GetFile_def ioCopy_def osRename_def
    emit_def rename_denied_env_def remote_ab_env_def plain_env_def install_old_b_def
    localizePath_def joinPath_def Let_def
  have a: "\<not> downloadFails rename_denied_env ''1.13c'' ''D'' ''a.mpq''"
    by (simp add: downloadFails_def rename_denied_env_def remote_ab_env_def plain_env_def
          joinPath_def)
  have b: "\<not> downloadFails rename_denied_env ''1.13c'' ''D'' ''b.mpq''"
    by (simp add: downloadFails_def rename_denied_env_def remote_ab_env_def plain_env_def
          joinPath_def)
  have r: "fst (doPatch rename_denied_env [''a.mpq'', ''b.mpq''] 1500 ''1.13c'' ''D''
             install_old_b) = Some (ErrOther ''denied'')"
    by (simp add: ev)
  have t: "renames (newEffects install_old_b
     (snd (doPatch rename_denied_env [''a.mpq'', ''b.mpq''] 1500 ''1.13c'' ''D'' install_old_b))) =
     [(''D/a.mpq.tmp'', ''D/a.mpq'')]"
    by (simp add: ev newEffects_def)
  have d1: "disk (snd (doPatch rename_denied_env [''a.mpq'', ''b.mpq''] 1500 ''1.13c'' ''D''
              install_old_b)) ''D/a.mpq'' = Some ''AABBCCDD''"
    by (simp add: ev)
  have d2: "disk (snd (doPatch rename_denied_env [''a.mpq'', ''b.mpq''] 1500 ''1.13c'' ''D''
              install_old_b)) ''D/b.mpq.tmp'' = Some ''11223344''"
    by (simp add: ev)
  have d3: "disk (snd (doPatch rename_denied_env [''a.mpq'', ''b.mpq''] 1500 ''1.13c'' ''D''
              install_old_b)) ''D/b.mpq'' = Some ''00000000''"
    by (simp add: ev)
  show ?thesis by (intro conjI a b r t d1 d2 d3)
qed

text \<open>
  C2, amended.  \<open>doPatch\<close> works in two phases; the staged path of a file is its
  final path followed by \<open>.tmp\<close>.  If the download of one of the planned files
  fails, the call returns an error, it has renamed nothing, and the disk is as before
  at every path that is not the staged path of a planned file.  If every download
  succeeds, the call has downloaded every file to its staged path, in the order of the
  plan, and only then renamed staged files to their final names, in the same order, up
  to the first \<open>os.Rename\<close> that fails; it returns without error exactly when it has
  renamed all of them.  For a plan of separate names the disk is then as follows: the
  renamed files are those before the first one whose rename is refused; each of them
  has the downloaded contents at its final path and nothing at its staged path; the
  file whose rename is refused and those after it have the downloaded contents at
  their staged paths and their final paths as before the call; every other path is as
  before the call.
\<close>

theorem doPatch_two_phase:
  "(\<forall>f. stagedPath path f = finalPath path f @ ''.tmp'') \<and>
   ((\<exists>f \<in> set patchFiles. downloadFails e remoteDir path f) \<longrightarrow>
      fst (doPatch e patchFiles patchLength remoteDir path w) \<noteq> None \<and>
      renames (newEffects w (snd (doPatch e patchFiles patchLength remoteDir path w))) = [] \<and>
      (\<forall>q. q \<notin> stagedPath path ` set patchFiles \<longrightarrow>
           disk (snd (doPatch e patchFiles patchLength remoteDir path w)) q = disk w q)) \<and>
   ((\<forall>f \<in> set patchFiles. \<not> downloadFails e remoteDir path f) \<longrightarrow>
      (\<exists>k \<le> length patchFiles.
         newEffects w (snd (doPatch e patchFiles patchLength remoteDir path w)) =
           Progress0 # concat (map (downloadEffects remoteDir path) patchFiles) @
           map (\<lambda>f. Renamed (stagedPath path f) (finalPath path f)) (take k patchFiles) \<and>
         (fst (doPatch e patchFiles patchLength remoteDir path w) = None \<longleftrightarrow>
            k = length patchFiles))) \<and>
   ((\<forall>f \<in> set patchFiles. \<not> downloadFails e remoteDir path f) \<and> separate path patchFiles \<longrightarrow>
      newEffects w (snd (doPatch e patchFiles patchLength remoteDir path w)) =
        Progress0 # concat (map (downloadEffects remoteDir path) patchFiles) @
        map (\<lambda>f. Renamed (stagedPath path f) (finalPath path f)) (promoted e path patchFiles) \<and>
      (fst (doPatch e patchFiles patchLength remoteDir path w) = None \<longleftrightarrow>
         (\<forall>f \<in> set patchFiles. \<not> renameFails e path f)) \<and>
      (\<forall>f \<in> set (promoted e path patchFiles).
         disk (snd (doPatch e patchFiles patchLength remoteDir path w)) (finalPath path f) =
           Some (remoteContents e remoteDir f) \<and>
         disk (snd (doPatch e patchFiles patchLength remoteDir path w)) (stagedPath path f) =
           None) \<and>
      (\<forall>f \<in> set (unpromoted e path patchFiles).
         disk (snd (doPatch e patchFiles patchLength remoteDir path w)) (stagedPath path f) =
           Some (remoteContents e remoteDir f) \<and>
         disk (snd (doPatch e patchFiles patchLength remoteDir path w)) (finalPath path f) =
           disk w (finalPath path f)) \<and>
      (\<forall>q. q \<notin> stagedPath path ` set patchFiles \<union> finalPath path ` set patchFiles \<longrightarrow>
         disk (snd (doPatch e patchFiles patchLength remoteDir path w)) q = disk w q))"
proof (intro conjI impI; (elim conjE)?)
  show "\<forall>f. stagedPath path f = finalPath path f @ ''.tmp''"
    by (simp add: stagedPath_def finalPath_def localizePath_def)
next
  let ?w0 = "emit Progress0 w"
  assume "\<exists>f \<in> set patchFiles. downloadFails e remoteDir path f"
  from doPatch_download_fail [OF this, of "[]" ?w0] obtain err w' xs where
    d: "doPatch_download e remoteDir path patchFiles [] ?w0 = (Inl err, w')"
       "trace w' = trace ?w0 @ xs" "renames xs = []"
       "\<forall>q. q \<notin> stagedPath path ` set patchFiles \<longrightarrow> disk w' q = disk ?w0 q"
    by blast
  then have run: "doPatch e patchFiles patchLength remoteDir path w = (Some err, w')"
    by (simp add: doPatch_def)
  from d(2) have "newEffects w w' = Progress0 # xs"
    by (simp add: newEffects_def emit_def)
  with d(3) have "renames (newEffects w w') = []" by simp
  with run d(4)
  show "fst (doPatch e patchFiles patchLength remoteDir path w) \<noteq> None"
    and "renames (newEffects w (snd (doPatch e patchFiles patchLength remoteDir path w))) = []"
    and "\<forall>q. q \<notin> stagedPath path ` set patchFiles \<longrightarrow>
           disk (snd (doPatch e patchFiles patchLength remoteDir path w)) q = disk w q"
    by (simp_all add: emit_def)
next
  let ?w0 = "emit Progress0 w"
  assume "\<forall>f \<in> set patchFiles. \<not> downloadFails e remoteDir path f"
  from doPatch_download_ok [OF this, of "[]" ?w0] obtain w1 where
    d: "doPatch_download e remoteDir path patchFiles [] ?w0 =
          (Inr (map (stagedPath path) patchFiles), w1)"
       "trace w1 = trace ?w0 @ concat (map (downloadEffects remoteDir path) patchFiles)"
    by auto
  obtain r w' where rn: "doPatch_rename e (map (stagedPath path) patchFiles) w1 = (r, w')"
    by (cases "doPatch_rename e (map (stagedPath path) patchFiles) w1")
  with d(1) have run: "doPatch e patchFiles patchLength remoteDir path w = (r, w')"
    by (simp add: doPatch_def)
  from doPatch_rename_trace [OF rn] obtain k where
    k: "k \<le> length patchFiles"
       "trace w' = trace w1 @
          map (\<lambda>f. Renamed (stagedPath path f) (finalPath path f)) (take k patchFiles)"
       "r = None \<longleftrightarrow> k = length patchFiles"
    by blast
  from k(2) d(2) have "newEffects w w' =
      Progress0 # concat (map (downloadEffects remoteDir path) patchFiles) @
      map (\<lambda>f. Renamed (stagedPath path f) (finalPath path f)) (take k patchFiles)"
    by (simp add: newEffects_def emit_def)
  with k(1,3) run
  show "\<exists>k \<le> length patchFiles.
         newEffects w (snd (doPatch e patchFiles patchLength remoteDir path w)) =
           Progress0 # concat (map (downloadEffects remoteDir path) patchFiles) @
           map (\<lambda>f. Renamed (stagedPath path f) (finalPath path f)) (take k patchFiles) \<and>
         (fst (doPatch e patchFiles patchLength remoteDir path w) = None \<longleftrightarrow>
            k = length patchFiles)"
    by (intro exI [of _ k]) simp
next
  assume ok: "\<forall>f \<in> set patchFiles. \<not> downloadFails e remoteDir path f"
    and sep: "separate path patchFiles"
  note p = doPatch_promotion [OF ok sep, where w = w and len = patchLength]
  show "newEffects w (snd (doPatch e patchFiles patchLength remoteDir path w)) =
        Progress0 # concat (map (downloadEffects remoteDir path) patchFiles) @
        map (\<lambda>f. Renamed (stagedPath path f) (finalPath path f)) (promoted e path patchFiles)"
    by (rule p(1))
  show "fst (doPatch e patchFiles patchLength remoteDir path w) = None \<longleftrightarrow>
         (\<forall>f \<in> set patchFiles. \<not> renameFails e path f)"
    by (rule p(2))
  show "\<forall>f \<in> set (promoted e path patchFiles).
         disk (snd (doPatch e patchFiles patchLength remoteDir path w)) (finalPath path f) =
           Some (remoteContents e remoteDir f) \<and>
         disk (snd (doPatch e patchFiles patchLength remoteDir path w)) (stagedPath path f) =
           None"
    by (rule p(3))
  show "\<forall>f \<in> set (unpromoted e path patchFiles).
         disk (snd (doPatch e patchFiles patchLength remoteDir path w)) (stagedPath path f) =
           Some (remoteContents e remoteDir f) \<and>
         disk (snd (doPatch e patchFiles patchLength remoteDir path w)) (finalPath path f) =
           disk w (finalPath path f)"
    by (rule p(4))
  show "\<forall>q. q \<notin> stagedPath path ` set patchFiles \<union> finalPath path ` set patchFiles \<longrightarrow>
         disk (snd (doPatch e patchFiles patchLength remoteDir path w)) q = disk w q"
    by (rule p(5))
qed


theorem doPatch_two_phase_witness:
  "downloadFails remote_env ''1.13c'' ''D'' ''b.mpq'' \<and>
   fst (doPatch remote_env [''a.mpq'', ''b.mpq''] 1500 ''1.13c'' ''D'' install_b) \<noteq> None \<and>
   renames (newEffects install_b
     (snd (doPatch remote_env [''a.mpq'', ''b.mpq''] 1500 ''1.13c'' ''D'' install_b))) = [] \<and>
   \<not> downloadFails remote_ab_env ''1.13c'' ''D'' ''a.mpq'' \<and>
   \<not> downloadFails remote_ab_env ''1.13c'' ''D'' ''b.mpq'' \<and>
   separate ''D'' [''a.mpq'', ''b.mpq''] \<and>
   fst (doPatch remote_ab_env [''a.mpq'', ''b.mpq''] 1500 ''1.13c'' ''D'' install_old_b) = None \<and>
   newEffects install_old_b
     (snd (doPatch remote_ab_env [''a.mpq'', ''b.mpq''] 1500 ''1.13c'' ''D'' install_old_b)) =
     [Progress0,
      Created ''D/a.mpq.tmp'', Fetched ''1.13c/a.mpq'', Wrote ''D/a.mpq.tmp'',
      Created ''D/b.mpq.tmp'', Fetched ''1.13c/b.mpq'', Wrote ''D/b.mpq.tmp'',
      Renamed ''D/a.mpq.tmp'' ''D/a.mpq'', Renamed ''D/b.mpq.tmp'' ''D/b.mpq''] \<and>
   disk (snd (doPatch remote_ab_env [''a.mpq'', ''b.mpq''] 1500 ''1.13c'' ''D'' install_old_b))
     ''D/a.mpq'' = Some ''AABBCCDD'' \<and>
   disk (snd (doPatch remote_ab_env [''a.mpq'', ''b.mpq''] 1500 ''1.13c'' ''D'' install_old_b))
     ''D/a.mpq.tmp'' = None \<and>
   disk (snd (doPatch remote_ab_env [''a.mpq'', ''b.mpq''] 1500 ''1.13c'' ''D'' install_old_b))
     ''D/b.mpq'' = Some ''11223344'' \<and>
   disk (snd (doPatch remote_ab_env [''a.mpq'', ''b.mpq''] 1500 ''1.13c'' ''D'' install_old_b))
     ''D/b.mpq.tmp'' = None"
proof -
  let ?w' = "snd (doPatch remote_ab_env [''a.mpq'', ''b.mpq''] 1500 ''1.13c'' ''D'' install_old_b)"
  have fb: "downloadFails remote_env ''1.13c'' ''D'' ''b.mpq''"
    by (simp add: downloadFails_def remote_env_def plain_env_def joinPath_def)
  then have "\<exists>f \<in> set [''a.mpq'', ''b.mpq'']. downloadFails remote_env ''1.13c'' ''D'' f"
    by simp
  note failing = doPatch_two_phase [where path = "''D''" and patchFiles = "[''a.mpq'', ''b.mpq'']"
      and e = remote_env and remoteDir = "''1.13c''" and patchLength = 1500 and w = install_b,
      THEN conjunct2, THEN conjunct1, THEN mp, OF this]
  have bad1: "fst (doPatch remote_env [''a.mpq'', ''b.mpq''] 1500 ''1.13c'' ''D'' install_b) \<noteq> None"
    by (rule failing [THEN conjunct1])
  have bad2: "renames (newEffects install_b
       (snd (doPatch remote_env [''a.mpq'', ''b.mpq''] 1500 ''1.13c'' ''D'' install_b))) = []"
    by (rule failing [THEN conjunct2, THEN conjunct1])
  have da: "\<not> downloadFails remote_ab_env ''1.13c'' ''D'' ''a.mpq''"
    by (simp add: downloadFails_def remote_ab_env_def plain_env_def joinPath_def)
  have db: "\<not> downloadFails remote_ab_env ''1.13c'' ''D'' ''b.mpq''"
    by (simp add: downloadFails_def remote_ab_env_def plain_env_def joinPath_def)
  have sep: "separate ''D'' [''a.mpq'', ''b.mpq'']"
    by (simp add: separate_def stagedPath_def finalPath_def localizePath_def joinPath_def)
  from da db have "\<forall>f \<in> set [''a.mpq'', ''b.mpq'']. \<not> downloadFails remote_ab_env ''1.13c'' ''D'' f"
    by simp
  note good = doPatch_two_phase [where path = "''D''" and patchFiles = "[''a.mpq'', ''b.mpq'']"
      and e = remote_ab_env and remoteDir = "''1.13c''" and patchLength = 1500
      and w = install_old_b,
      THEN conjunct2, THEN conjunct2, THEN conjunct2, THEN mp, OF conjI [OF this sep]]
  have nf: "\<not> renameFails remote_ab_env ''D'' ''a.mpq''"
    "\<not> renameFails remote_ab_env ''D'' ''b.mpq''"
    by (simp_all add: renameFails_def remote_ab_env_def plain_env_def)
  have rc: "remoteContents remote_ab_env ''1.13c'' ''a.mpq'' = ''AABBCCDD''"
    "remoteContents remote_ab_env ''1.13c'' ''b.mpq'' = ''11223344''"
    by (simp_all add: remoteContents_def remote_ab_env_def plain_env_def joinPath_def)
  have pr: "promoted remote_ab_env ''D'' [''a.mpq'', ''b.mpq''] = [''a.mpq'', ''b.mpq'']"
    using nf by (simp add: promoted_def)
  have ok: "fst (doPatch remote_ab_env [''a.mpq'', ''b.mpq''] 1500 ''1.13c'' ''D'' install_old_b) =
              None"
    using good [THEN conjunct2, THEN conjunct1] nf by simp
  have tr: "newEffects install_old_b ?w' =
     [Progress0,
      Created ''D/a.mpq.tmp'', Fetched ''1.13c/a.mpq'', Wrote ''D/a.mpq.tmp'',
      Created ''D/b.mpq.tmp'', Fetched ''1.13c/b.mpq'', Wrote ''D/b.mpq.tmp'',
      Renamed ''D/a.mpq.tmp'' ''D/a.mpq'', Renamed ''D/b.mpq.tmp'' ''D/b.mpq'']"
    using good [THEN conjunct1]
    by (simp add: pr downloadEffects_def stagedPath_def finalPath_def localizePath_def
          joinPath_def)
  have "disk ?w' ''D/a.mpq'' = Some ''AABBCCDD'' \<and> disk ?w' ''D/a.mpq.tmp'' = None \<and>
        disk ?w' ''D/b.mpq'' = Some ''11223344'' \<and> disk ?w' ''D/b.mpq.tmp'' = None"
    using good [THEN conjunct2, THEN conjunct2, THEN conjunct1]
    by (simp add: pr rc stagedPath_def finalPath_def localizePath_def joinPath_def)
  then have d1: "disk ?w' ''D/a.mpq'' = Some ''AABBCCDD''"
    and d2: "disk ?w' ''D/a.mpq.tmp'' = None"
    and d3: "disk ?w' ''D/b.mpq'' = Some ''11223344''"
    and d4: "disk ?w' ''D/b.mpq.tmp'' = None"
    by simp_all
  show ?thesis by (intro conjI fb bad1 bad2 da db sep ok tr d1 d2 d3 d4)
qed

section \<open>Properties of the layer applications\<close>

lemma HasPrefix_append: "HasPrefix (s @ t) s"
  by (induction s) simp_all

lemma Contains_HasPrefix: "HasPrefix t s \<Longrightarrow> Contains t s"
  by (cases t; cases s) simp_all

lemma Contains_middle: "Contains (a @ s @ b) s"
  by (induction a) (simp_all add: Contains_HasPrefix HasPrefix_append)

lemma Contains_end: "Contains (a @ s) s"
  using Contains_middle [of a s "[]"] by simp

text \<open>
  C5.  In each of the four layer applications (\<open>apply113c\<close>, \<open>applySlashPatch\<close>,
  \<open>applyMaphack\<close>, \<open>applyHDMod\<close>): when the plan is not empty and \<open>doPatch\<close>
  fails with \<open>patchErr\<close>, the application returns \<open>patchErr\<close> itself if
  \<open>cleanUpFailedPatch\<close> succeeds, and the one error \<open>cleanUpError patchErr err\<close>
  if the cleanup fails with \<open>err\<close>.  The message of that error is
  \<open>Clean up error: \<close>, the message of \<open>patchErr\<close>, \<open> : \<close> and the message of
  \<open>err\<close>, so it contains both messages.
\<close>

theorem apply_keeps_patch_error:
  "(getManifest e ''1.13c/manifest.json'' (emit (Status ''Checking game version...'') w) =
      (Inr manifest, w1) \<and>
    getFilesToPatch (hashCRC32 e w1) manifest path [] = Inr (patchFiles, patchLength) \<and>
    patchFiles \<noteq> [] \<and>
    doPatch e patchFiles patchLength ''1.13c'' path
      (emit (Status (''Updating '' @ path @ '' to 1.13c'')) w1) = (Some patchErr, w2) \<and>
    cleanUpFailedPatch e path w2 = (cleanup, w3) \<longrightarrow>
    apply113c e path w =
      (Some (case cleanup of None \<Rightarrow> patchErr | Some err \<Rightarrow> cleanUpError patchErr err), w3)) \<and>
   (getManifest e ''current/manifest.json'' (emit (Status ''Checking Slashdiablo patch...'') w) =
      (Inr manifest, w1) \<and>
    getFilesToPatch (hashCRC32 e w1) manifest path [] = Inr (patchFiles, patchLength) \<and>
    patchFiles \<noteq> [] \<and>
    doPatch e patchFiles patchLength ''current'' path
      (emit (Status (''Updating '' @ path @ '' to current Slashdiablo patch'')) w1) =
      (Some patchErr, w2) \<and>
    cleanUpFailedPatch e path w2 = (cleanup, w3) \<longrightarrow>
    applySlashPatch e path w =
      (Some (case cleanup of None \<Rightarrow> patchErr | Some err \<Rightarrow> cleanUpError patchErr err), w3)) \<and>
   (getFilesToPatch (hashCRC32 e (emit (Status ''Checking maphack...'') w)) manifest path
      ignoredFiles = Inr (patchFiles, patchLength) \<and>
    patchFiles \<noteq> [] \<and>
    doPatch e patchFiles patchLength ''maphack'' path
      (emit (Status (''Updating '' @ path @ '' to latest maphack version''))
         (emit (Status ''Checking maphack...'') w)) = (Some patchErr, w2) \<and>
    cleanUpFailedPatch e path w2 = (cleanup, w3) \<longrightarrow>
    applyMaphack e path manifest ignoredFiles w =
      (Some (case cleanup of None \<Rightarrow> patchErr | Some err \<Rightarrow> cleanUpError patchErr err), w3)) \<and>
   (getFilesToPatch (hashCRC32 e (emit (Status ''Checking HD mod...'') w)) manifest path [] =
      Inr (patchFiles, patchLength) \<and>
    patchFiles \<noteq> [] \<and>
    doPatch e patchFiles patchLength ''hd'' path
      (emit (Status (''Updating '' @ path @ '' to latest HD mod version''))
         (emit (Status ''Checking HD mod...'') w)) = (Some patchErr, w2) \<and>
    cleanUpFailedPatch e path w2 = (cleanup, w3) \<longrightarrow>
    applyHDMod e path manifest w =
      (Some (case cleanup of None \<Rightarrow> patchErr | Some err \<Rightarrow> cleanUpError patchErr err), w3)) \<and>
   errorString (cleanUpError patchErr err) =
     ''Clean up error: '' @ errorString patchErr @ '' : '' @ errorString err \<and>
   Contains (errorString (cleanUpError patchErr err)) (errorString patchErr) \<and>
   Contains (errorString (cleanUpError patchErr err)) (errorString err)"
proof (intro conjI impI)
  assume "getManifest e ''1.13c/manifest.json'' (emit (Status ''Checking game version...'') w) =
      (Inr manifest, w1) \<and>
    getFilesToPatch (hashCRC32 e w1) manifest path [] = Inr (patchFiles, patchLength) \<and>
    patchFiles \<noteq> [] \<and>
    doPatch e patchFiles patchLength ''1.13c'' path
      (emit (Status (''Updating '' @ path @ '' to 1.13c'')) w1) = (Some patchErr, w2) \<and>
    cleanUpFailedPatch e path w2 = (cleanup, w3)"
  then show "apply113c e path w =
      (Some (case cleanup of None \<Rightarrow> patchErr | Some err \<Rightarrow> cleanUpError patchErr err), w3)"
    by (cases cleanup) (simp_all add: apply113c_def)
next
  assume "getManifest e ''current/manifest.json'' (emit (Status ''Checking Slashdiablo patch...'') w) =
      (Inr manifest, w1) \<and>
    getFilesToPatch (hashCRC32 e w1) manifest path [] = Inr (patchFiles, patchLength) \<and>
    patchFiles \<noteq> [] \<and>
    doPatch e patchFiles patchLength ''current'' path
      (emit (Status (''Updating '' @ path @ '' to current Slashdiablo patch'')) w1) =
      (Some patchErr, w2) \<and>
    cleanUpFailedPatch e path w2 = (cleanup, w3)"
  then show "applySlashPatch e path w =
      (Some (case cleanup of None \<Rightarrow> patchErr | Some err \<Rightarrow> cleanUpError patchErr err), w3)"
    by (cases cleanup) (simp_all add: applySlashPatch_def)
next
  assume "getFilesToPatch (hashCRC32 e (emit (Status ''Checking maphack...'') w)) manifest path
      ignoredFiles = Inr (patchFiles, patchLength) \<and>
    patchFiles \<noteq> [] \<and>
    doPatch e patchFiles patchLength ''maphack'' path
      (emit (Status (''Updating '' @ path @ '' to latest maphack version''))
         (emit (Status ''Checking maphack...'') w)) = (Some patchErr, w2) \<and>
    cleanUpFailedPatch e path w2 = (cleanup, w3)"
  then show "applyMaphack e path manifest ignoredFiles w =
      (Some (case cleanup of None \<Rightarrow> patchErr | Some err \<Rightarrow> cleanUpError patchErr err), w3)"
    by (cases cleanup) (simp_all add: applyMaphack_def Let_def)
next
  assume "getFilesToPatch (hashCRC32 e (emit (Status ''Checking HD mod...'') w)) manifest path [] =
      Inr (patchFiles, patchLength) \<and>
    patchFiles \<noteq> [] \<and>
    doPatch e patchFiles patchLength ''hd'' path
      (emit (Status (''Updating '' @ path @ '' to latest HD mod version''))
         (emit (Status ''Checking HD mod...'') w)) = (Some patchErr, w2) \<and>
    cleanUpFailedPatch e path w2 = (cleanup, w3)"
  then show "applyHDMod e path manifest w =
      (Some (case cleanup of None \<Rightarrow> patchErr | Some err \<Rightarrow> cleanUpError patchErr err), w3)"
    by (cases cleanup) (simp_all add: applyHDMod_def Let_def)
next
  show "errorString (cleanUpError patchErr err) =
     ''Clean up error: '' @ errorString patchErr @ '' : '' @ errorString err"
    by (simp add: cleanUpError_def)
next
  have "Contains (''Clean up error: '' @ errorString patchErr @ ('' : '' @ errorString err))
          (errorString patchErr)"
    by (rule Contains_middle)
  then show "Contains (errorString (cleanUpError patchErr err)) (errorString patchErr)"
    by (simp add: cleanUpError_def)
next
  have "Contains ((''Clean up error: '' @ errorString patchErr @ '' : '') @ errorString err)
          (errorString err)"
    by (rule Contains_end)
  then show "Contains (errorString (cleanUpError patchErr err)) (errorString err)"
    by (simp add: cleanUpError_def)
qed

theorem apply_keeps_patch_error_witness:
  "fst (getManifest broken_env ''1.13c/manifest.json''
          (emit (Status ''Checking game version...'') install_b)) = Inr [a_mpq] \<and>
   fst (apply113c broken_env ''D'' install_b) =
     Some (ErrOther ''Clean up error: 404 : denied'')"
proof -
  let ?w0 = "emit (Status ''Checking game version...'') install_b"
  let ?w1 = "snd (getManifest broken_env ''1.13c/manifest.json'' ?w0)"
  let ?w1' = "emit (Status (''Updating '' @ ''D'' @ '' to 1.13c'')) ?w1"
  let ?w2 = "snd (doPatch broken_env [''a.mpq''] 1000 ''1.13c'' ''D'' ?w1')"
  let ?w3 = "snd (cleanUpFailedPatch broken_env ''D'' ?w2)"
  have m: "getManifest broken_env ''1.13c/manifest.json'' ?w0 = (Inr [a_mpq], ?w1)"
    by (simp add: getManifest_def GetFile_def broken_env_def plain_env_def)
  have p: "getFilesToPatch (hashCRC32 broken_env ?w1) [a_mpq] ''D'' [] = Inr ([''a.mpq''], 1000)"
    by (simp add: getFilesToPatch_def hashCRC32_def getManifest_def GetFile_def emit_def
          broken_env_def plain_env_def install_b_def a_mpq_def localizePath_def joinPath_def)
  have ne: "[''a.mpq''] \<noteq> []" by simp
  have d: "doPatch broken_env [''a.mpq''] 1000 ''1.13c'' ''D'' ?w1' = (Some (ErrOther ''404''), ?w2)"
    by (simp add: doPatch_def downloadFile_def osCreate_def GetFile_def emit_def Let_def
          broken_env_def plain_env_def localizePath_def joinPath_def)
  have c: "cleanUpFailedPatch broken_env ''D'' ?w2 = (Some (ErrOther ''denied''), ?w3)"
    by (simp add: cleanUpFailedPatch_def broken_env_def plain_env_def localizePath_def)
  from apply_keeps_patch_error [THEN conjunct1, THEN mp,
      OF conjI [OF m conjI [OF p conjI [OF ne conjI [OF d c]]]]]
  have "fst (apply113c broken_env ''D'' install_b) =
          Some (cleanUpError (ErrOther ''404'') (ErrOther ''denied''))"
    by simp
  then have r: "fst (apply113c broken_env ''D'' install_b) =
     Some (ErrOther ''Clean up error: 404 : denied'')"
    by (simp add: cleanUpError_def)
  have m1: "fst (getManifest broken_env ''1.13c/manifest.json'' ?w0) = Inr [a_mpq]"
    by (simp add: getManifest_def GetFile_def broken_env_def plain_env_def)
  show ?thesis by (intro conjI m1 r)
qed

section \<open>Failure cleanup\<close>

text \<open>
  What the cleanup does: it removes, in the order of the listing, the listed files
  whose name contains \<open>.tmp\<close> anywhere, and when it succeeds it has removed all of
  them.  A name that ends in \<open>.tmp\<close> contains it, so every listed staging
  artifact is among them.
\<close>

lemma HasSuffix_Contains: "HasSuffix s suffix \<Longrightarrow> Contains s suffix"
proof -
  assume "HasSuffix s suffix"
  then have "s = take (length s - length suffix) s @ suffix"
    by (metis HasSuffix_def append_take_drop_id)
  then show ?thesis by (metis Contains_end)
qed

lemma cleanUpFailedPatch_loop_effect:
  "cleanUpFailedPatch_loop e dir names w = (r, w') \<Longrightarrow>
     \<exists>ns. trace w' = trace w @ map (\<lambda>n. Removed (localizePath (joinPath dir n))) ns \<and>
          disk w' = (\<lambda>p. if p \<in> (\<lambda>n. localizePath (joinPath dir n)) ` set ns then None
                          else disk w p) \<and>
          (\<forall>n \<in> set ns. n \<in> set names \<and> Contains n ''.tmp'') \<and>
          (r = None \<longrightarrow> ns = filter (\<lambda>n. Contains n ''.tmp'') names)"
proof (induction names arbitrary: w)
  case Nil
  then have "w' = w" "r = None" by simp_all
  then show ?case by (intro exI [of _ "[]"]) simp
next
  case (Cons n names)
  let ?p = "localizePath (joinPath dir n)"
  show ?case
  proof (cases "Contains n ''.tmp''")
    case False
    with Cons.prems have "cleanUpFailedPatch_loop e dir names w = (r, w')" by simp
    from Cons.IH [OF this] False show ?thesis by auto
  next
    case True
    obtain r1 w1 where rm: "osRemove e ?p w = (r1, w1)" by (cases "osRemove e ?p w")
    from osRemove_cases [OF rm] show ?thesis
    proof
      assume "r1 \<noteq> None \<and> w1 = w"
      with True rm Cons.prems have "w' = w" "r \<noteq> None" by auto
      then show ?thesis by (intro exI [of _ "[]"]) auto
    next
      assume a: "r1 = None \<and> disk w ?p \<noteq> None \<and> fault e (Remove ?p) = None \<and>
                 w1 = emit (Removed ?p) (w\<lparr>disk := (disk w)(?p := None)\<rparr>)"
      with True rm Cons.prems have "cleanUpFailedPatch_loop e dir names w1 = (r, w')" by auto
      from Cons.IH [OF this] obtain ns where
        ns: "trace w' = trace w1 @ map (\<lambda>n. Removed (localizePath (joinPath dir n))) ns"
            "disk w' = (\<lambda>p. if p \<in> (\<lambda>n. localizePath (joinPath dir n)) ` set ns then None
                          else disk w1 p)"
            "\<forall>n \<in> set ns. n \<in> set names \<and> Contains n ''.tmp''"
            "r = None \<longrightarrow> ns = filter (\<lambda>n. Contains n ''.tmp'') names"
        by blast
      from a have w1: "trace w1 = trace w @ [Removed ?p]" "disk w1 = (disk w)(?p := None)"
        by (simp_all add: emit_def)
      have "trace w' = trace w @ map (\<lambda>n. Removed (localizePath (joinPath dir n))) (n # ns)"
        using ns(1) w1(1) by simp
      moreover have "disk w' = (\<lambda>p. if p \<in> (\<lambda>n. localizePath (joinPath dir n)) ` set (n # ns)
                          then None else disk w p)"
        using ns(2) w1(2) by (auto simp: fun_eq_iff)
      moreover have "\<forall>m \<in> set (n # ns). m \<in> set (n # names) \<and> Contains m ''.tmp''"
        using ns(3) True by auto
      moreover have "r = None \<longrightarrow> n # ns = filter (\<lambda>n. Contains n ''.tmp'') (n # names)"
        using ns(4) True by simp
      ultimately show ?thesis by blast
    qed
  qed
qed

lemma cleanUpFailedPatch_removes_infix:
  assumes "dirListing e (localizePath dir) = Inr names"
    and "cleanUpFailedPatch e dir w = (None, w')"
  shows "newEffects w w' =
           map (\<lambda>n. Removed (localizePath (joinPath dir n)))
             (filter (\<lambda>n. Contains n ''.tmp'') names)"
proof -
  from assms have "cleanUpFailedPatch_loop e dir names w = (None, w')"
    by (simp add: cleanUpFailedPatch_def)
  from cleanUpFailedPatch_loop_effect [OF this] show ?thesis
    by (auto simp: newEffects_def)
qed

text \<open>
  C4.  \<open>cleanUpFailedPatch\<close> tests \<open>strings.Contains(fileName, ".tmp")\<close>, not
  the suffix.  In a directory with the staged \<open>a.mpq.tmp\<close>, the installed
  \<open>b.mpq\<close> and the user's \<open>d2.tmp.bak\<close>, whose name does not end in
  \<open>.tmp\<close>, the cleanup succeeds and has removed \<open>d2.tmp.bak\<close> together with the
  staged file.
\<close>

theorem cleanUpFailedPatch_removes_unstaged:
  "\<not> HasSuffix ''d2.tmp.bak'' ''.tmp'' \<and>
   disk install_tmp ''D/d2.tmp.bak'' = Some ''keep'' \<and>
   fst (cleanUpFailedPatch tmp_env ''D'' install_tmp) = None \<and>
   trace (snd (cleanUpFailedPatch tmp_env ''D'' install_tmp)) =
     [Removed ''D/a.mpq.tmp'', Removed ''D/d2.tmp.bak''] \<and>
   disk (snd (cleanUpFailedPatch tmp_env ''D'' install_tmp)) ''D/d2.tmp.bak'' = None"
  by (simp add: HasSuffix_def cleanUpFailedPatch_def osRemove_def emit_def tmp_env_def
        plain_env_def install_tmp_def localizePath_def joinPath_def)

section \<open>Properties of the launch\<close>

lemma countRunning_eq:
  "countRunning gid rs c = c + of_nat (length (filter (\<lambda>running. GameID running = gid) rs))"
  by (induction rs arbitrary: c) (auto simp: add.assoc)

lemma runningFor_record_step [simp]: "runningFor gid (record_step x s) = runningFor gid s"
  by (simp add: runningFor_def record_step_def)

lemma mutateInstancesToLaunch_eq:
  "mutateInstancesToLaunch games s =
     (map (\<lambda>g. g\<lparr>Instances := instancesToLaunch g s\<rparr>) games,
      s\<lparr>steps := steps s @ replicate (length games) ReadRunningGames\<rparr>)"
proof (induction games arbitrary: s)
  case Nil
  then show ?case by simp
next
  case (Cons g games)
  have "countRunning (ID g) (runningGames (record_step ReadRunningGames s)) 0 =
          of_nat (runningFor (ID g) s)"
    by (simp add: countRunning_eq runningFor_def record_step_def)
  then show ?case
    by (simp add: Cons.IH instancesToLaunch_def Let_def record_step_def runningFor_def
          replicate_append_same)
qed

lemma launchInstances_eq:
  "launchInstances n g s =
     (None,
      s\<lparr>runningGames := runningGames s @ replicate n \<lparr>PID = 1, GameID = ID g\<rparr>,
        steps := steps s @ concat (replicate n
          [Sleep, Launch (Location g) (Flags g), ReadRunningGames, WriteRunningGames])\<rparr>)"
proof (induction n arbitrary: s)
  case 0
  then show ?case by simp
next
  case (Suc n)
  show ?case
    by (simp add: Suc.IH launch_def Let_def record_step_def replicate_append_same)
qed

lemma launchGames_eq:
  "launchGames games s =
     (None,
      s\<lparr>runningGames := runningGames s @
          concat (map (\<lambda>g. replicate (nat (sint (Instances g))) \<lparr>PID = 1, GameID = ID g\<rparr>) games),
        steps := steps s @
          concat (map (\<lambda>g. concat (replicate (nat (sint (Instances g)))
            [Sleep, Launch (Location g) (Flags g), ReadRunningGames, WriteRunningGames])) games)\<rparr>)"
proof (induction games arbitrary: s)
  case Nil
  then show ?case by simp
next
  case (Cons g games)
  show ?case by (simp add: launchInstances_eq Cons.IH)
qed

lemma launches_append: "launches (xs @ ys) = launches xs @ launches ys"
  by (induction xs rule: launches.induct) simp_all

lemma launches_reads: "launches (replicate n ReadRunningGames) = []"
  by (induction n) simp_all

lemma launches_rounds:
  "launches (concat (replicate n [Sleep, Launch path flags, ReadRunningGames, WriteRunningGames]))
     = replicate n (path, flags)"
  by (induction n) simp_all

lemma launches_games:
  "launches (concat (map (\<lambda>g. concat (replicate (k g)
       [Sleep, Launch (Location g) (Flags g), ReadRunningGames, WriteRunningGames])) games)) =
   concat (map (\<lambda>g. replicate (k g) (Location g, Flags g)) games)"
  by (induction games) (simp_all add: launches_append launches_rounds)

lemma sint_diff_count:
  fixes a :: "64 word"
  assumes "0 \<le> sint a" and "n < 2 ^ 63"
  shows "sint (a - of_nat n) = sint a - int n"
proof -
  have n: "sint (of_nat n :: 64 word) = int n"
    using assms(2) by (simp add: signed_of_nat signed_take_bit_int_eq_self)
  have "sint a < 2 ^ 63" using sint_lt [of a] by simp
  with assms n have "- (2 ^ 63) \<le> sint a - sint (of_nat n :: 64 word)"
    and "sint a - sint (of_nat n :: 64 word) < 2 ^ 63"
    by simp_all
  then have "signed_take_bit 63 (sint a - sint (of_nat n :: 64 word)) =
               sint a - sint (of_nat n :: 64 word)"
    by (rule signed_take_bit_int_eq_self)
  with n show ?thesis by (simp add: sint_word_diff)
qed

text \<open>
  C8.  When the configuration is read, \<open>Exec\<close> returns without error (the darwin
  build of \<open>launch\<close> never fails) and has called \<open>launch\<close>, install by install
  in the order of the configuration, once for every instance still to launch: the
  desired count minus the number of tracked running instances of the install's id,
  and not at all when that number is negative.  It tracks one more running instance
  per call.  The subtraction is that of the 64-bit \<open>int\<close>; it is the difference of
  the two numbers whenever the desired count is not negative and fewer than
  \<open>2^63\<close> instances are tracked.
\<close>

theorem Exec_launches_missing_instances:
  "configRead e = Inr games \<Longrightarrow>
     fst (Exec e s) = None \<and>
     launches (newSteps s (snd (Exec e s))) =
       concat (map (\<lambda>g. replicate (nat (sint (instancesToLaunch g s))) (Location g, Flags g))
                 games) \<and>
     runningGames (snd (Exec e s)) =
       runningGames s @
       concat (map (\<lambda>g. replicate (nat (sint (instancesToLaunch g s)))
                          \<lparr>PID = 1, GameID = ID g\<rparr>) games) \<and>
     (\<forall>g \<in> set games. 0 \<le> sint (Instances g) \<and> runningFor (ID g) s < 2 ^ 63 \<longrightarrow>
          sint (instancesToLaunch g s) = sint (Instances g) - int (runningFor (ID g) s))"
proof -
  assume conf: "configRead e = Inr games"
  let ?games' = "map (\<lambda>g. g\<lparr>Instances := instancesToLaunch g s\<rparr>) games"
  let ?s1 = "s\<lparr>steps := steps s @ replicate (length games) ReadRunningGames\<rparr>"
  from conf have run: "Exec e s = launchGames ?games' ?s1"
    by (simp add: Exec_def mutateInstancesToLaunch_eq)
  have st: "steps (snd (Exec e s)) =
      steps s @ replicate (length games) ReadRunningGames @
      concat (map (\<lambda>g. concat (replicate (nat (sint (instancesToLaunch g s)))
            [Sleep, Launch (Location g) (Flags g), ReadRunningGames, WriteRunningGames])) games)"
    by (simp add: run launchGames_eq comp_def)
  have "newSteps s (snd (Exec e s)) =
      replicate (length games) ReadRunningGames @
      concat (map (\<lambda>g. concat (replicate (nat (sint (instancesToLaunch g s)))
            [Sleep, Launch (Location g) (Flags g), ReadRunningGames, WriteRunningGames])) games)"
    unfolding newSteps_def st by simp
  then have l: "launches (newSteps s (snd (Exec e s))) =
       concat (map (\<lambda>g. replicate (nat (sint (instancesToLaunch g s))) (Location g, Flags g))
                 games)"
    by (simp add: launches_append launches_reads launches_games)
  have r: "runningGames (snd (Exec e s)) =
       runningGames s @
       concat (map (\<lambda>g. replicate (nat (sint (instancesToLaunch g s)))
                          \<lparr>PID = 1, GameID = ID g\<rparr>) games)"
    by (simp add: run launchGames_eq comp_def)
  have f: "fst (Exec e s) = None" by (simp add: run launchGames_eq)
  have a: "\<forall>g \<in> set games. 0 \<le> sint (Instances g) \<and> runningFor (ID g) s < 2 ^ 63 \<longrightarrow>
          sint (instancesToLaunch g s) = sint (Instances g) - int (runningFor (ID g) s)"
    by (simp add: instancesToLaunch_def sint_diff_count)
  from f l r a show ?thesis by blast
qed

theorem Exec_launches_missing_instances_witness:
  "configRead config_X = Inr [game_X] \<and>
   sint (Instances game_X) = 3 \<and>
   runningFor (ID game_X) two_running = 2 \<and>
   sint (instancesToLaunch game_X two_running) = 1 \<and>
   fst (Exec config_X two_running) = None \<and>
   launches (newSteps two_running (snd (Exec config_X two_running))) = [(''D'', [''-w''])]"
proof -
  have conf: "configRead config_X = Inr [game_X]"
    by (simp add: config_X_def plain_env_def)
  have want: "sint (Instances game_X) = 3"
    by (simp add: game_X_def)
  have have2: "runningFor (ID game_X) two_running = 2"
    by (simp add: runningFor_def game_X_def two_running_def)
  note exec = Exec_launches_missing_instances [OF conf, of two_running]
  have bounds: "0 \<le> sint (Instances game_X) \<and> runningFor (ID game_X) two_running < 2 ^ 63"
    by (simp add: want have2)
  have "game_X \<in> set [game_X]" by simp
  with exec bounds
  have "sint (instancesToLaunch game_X two_running) =
          sint (Instances game_X) - int (runningFor (ID game_X) two_running)"
    by blast
  with want have2 have todo: "sint (instancesToLaunch game_X two_running) = 1"
    by simp
  have ok: "fst (Exec config_X two_running) = None"
    by (rule exec [THEN conjunct1])
  have "launches (newSteps two_running (snd (Exec config_X two_running))) =
       concat (map (\<lambda>g. replicate (nat (sint (instancesToLaunch g two_running)))
                          (Location g, Flags g)) [game_X])"
    by (rule exec [THEN conjunct2, THEN conjunct1])
  with todo have l: "launches (newSteps two_running (snd (Exec config_X two_running))) =
       [(''D'', [''-w''])]"
    by (simp add: game_X_def)
  show ?thesis by (intro conjI conf want have2 todo ok l)
qed

section \<open>The lock around the running instances\<close>

text \<open>
  With at least one configured install, the steps of \<open>Exec\<close> hold no
  \<open>s.mux.Lock()\<close> and start with a read of \<open>runningGames\<close>.
\<close>

lemma Exec_steps:
  "configRead e = Inr games \<Longrightarrow>
     newSteps s (snd (Exec e s)) =
       replicate (length games) ReadRunningGames @
       concat (map (\<lambda>g. concat (replicate (nat (sint (instancesToLaunch g s)))
            [Sleep, Launch (Location g) (Flags g), ReadRunningGames, WriteRunningGames])) games)"
  by (simp add: Exec_def mutateInstancesToLaunch_eq launchGames_eq comp_def newSteps_def)

lemma launch_rounds_no_lock:
  "MuxLock \<notin> set (concat (map (\<lambda>g. concat (replicate (k g)
       [Sleep, Launch (Location g) (Flags g), ReadRunningGames, WriteRunningGames])) games))"
  by (induction games) auto

lemma Exec_never_locks:
  assumes "configRead e = Inr (g # games)"
  shows "MuxLock \<notin> set (newSteps s (snd (Exec e s)))"
    and "\<not> underLock False (newSteps s (snd (Exec e s)))"
  using launch_rounds_no_lock [of "\<lambda>g. nat (sint (instancesToLaunch g s))" "g # games"]
  by (simp_all add: Exec_steps [OF assms])

text \<open>
  C9.  \<open>Exec\<close> never takes the mutex.  With one configured install, of which two
  instances are tracked and three are wanted, it reads \<open>runningGames\<close> in
  \<open>mutateInstancesToLaunch\<close> and appends to it after the launch, and none of these
  accesses happens under the lock.
\<close>

theorem Exec_accesses_without_lock:
  "Exec config_X two_running =
     (None,
      \<lparr>runningGames = [\<lparr>PID = 1, GameID = ''X''\<rparr>, \<lparr>PID = 1, GameID = ''X''\<rparr>,
                       \<lparr>PID = 1, GameID = ''X''\<rparr>],
       steps = [ReadRunningGames, Sleep, Launch ''D'' [''-w''], ReadRunningGames,
                WriteRunningGames]\<rparr>) \<and>
   \<not> underLock False (steps (snd (Exec config_X two_running)))"
proof -
  have n: "nat (sint (2::64 word)) = Suc (Suc 0)" "nat (sint (1::64 word)) = Suc 0"
    "(3::64 word) - (0 + 1 + 1) = 1"
    by simp_all
  have "Exec config_X two_running =
     (None,
      \<lparr>runningGames = [\<lparr>PID = 1, GameID = ''X''\<rparr>, \<lparr>PID = 1, GameID = ''X''\<rparr>,
                       \<lparr>PID = 1, GameID = ''X''\<rparr>],
       steps = [ReadRunningGames, Sleep, Launch ''D'' [''-w''], ReadRunningGames,
                WriteRunningGames]\<rparr>)"
    by (simp add: Exec_def config_X_def plain_env_def game_X_def two_running_def
          record_step_def launch_def Let_def n)
  then show ?thesis by simp
qed

section \<open>Exit notifications\<close>

text \<open>
  What does hold of one round: the error of the notification is only logged; without
  a process identifier, or with one that no tracked instance has, the tracked
  instances stay as they are; and when exactly one tracked instance has it, exactly
  that instance is removed.
\<close>

lemma removeExited_Cons:
  "removeExited p (index # rest) array len trail =
     (if exitedPid p (array ! index)
      then (if index + 1 > len then None
            else removeExited p rest
                   (take index array @ drop (index + 1) (take len array) @ drop (len - 1) array)
                   (len - 1)
                   (trail @ [ReadRunningGames, ReadRunningGames, WriteRunningGames]))
      else removeExited p rest array len trail)"
  by (simp add: exitedPid_def Let_def)

lemma removeExited_no_match:
  "\<forall>i \<in> set indices. \<not> exitedPid p (array ! i) \<Longrightarrow>
     removeExited p indices array len trail = Some (array, len, trail)"
  by (induction indices) (simp_all add: removeExited_Cons del: removeExited.simps(2))

lemma removeExited_append:
  "removeExited p (is @ js) array len trail =
     (case removeExited p is array len trail of
        None \<Rightarrow> None
      | Some (array', len', trail') \<Rightarrow> removeExited p js array' len' trail')"
  by (induction "is" arbitrary: array len trail)
     (simp_all add: removeExited_Cons del: removeExited.simps(2))

lemma round_runningGames:
  "listenForGameStates_round state s =
     (case removeExited (state_pid state) [0 ..< length (runningGames s)] (runningGames s)
             (length (runningGames s)) [] of
        None \<Rightarrow> None
      | Some (array, len, trail) \<Rightarrow>
          Some \<lparr>runningGames = take len array,
                steps = steps s @
                  (case state_err state of
                     Some err \<Rightarrow> [LogError (''Diablo II exec with code: '' @ errorString err)]
                   | None \<Rightarrow> []) @
                  [MuxLock, ReadRunningGames] @ trail @ [MuxUnlock]\<rparr>)"
  by (cases "state_err state")
     (auto simp: listenForGameStates_round_def record_step_def Let_def split: option.splits)

lemma round_no_match:
  assumes "\<forall>g \<in> set (runningGames s). \<not> exitedPid (state_pid state) g"
  shows "\<exists>s'. listenForGameStates_round state s = Some s' \<and> runningGames s' = runningGames s"
proof -
  have "\<forall>i \<in> set [0 ..< length (runningGames s)].
          \<not> exitedPid (state_pid state) (runningGames s ! i)"
    using assms by simp
  from removeExited_no_match [OF this]
  show ?thesis by (simp add: round_runningGames)
qed

lemma round_nil_pid:
  "state_pid state = None \<Longrightarrow>
     \<exists>s'. listenForGameStates_round state s = Some s' \<and> runningGames s' = runningGames s"
  by (rule round_no_match) (simp add: exitedPid_def)

lemma round_single_match:
  assumes rg: "runningGames s = xs @ g # ys"
    and g: "exitedPid (state_pid state) g"
    and others: "\<forall>x \<in> set xs \<union> set ys. \<not> exitedPid (state_pid state) x"
  shows "\<exists>s'. listenForGameStates_round state s = Some s' \<and> runningGames s' = xs @ ys"
proof -
  let ?p = "state_pid state"
  let ?arr = "xs @ g # ys"
  let ?j = "length xs"
  let ?n = "length ?arr"
  let ?arr' = "xs @ ys @ [last (g # ys)]"
  let ?t = "[ReadRunningGames, ReadRunningGames, WriteRunningGames]"
  have split: "[0 ..< ?n] = [0 ..< ?j] @ ?j # [Suc ?j ..< ?n]"
    by (metis add_Suc_right le_add1 length_Cons length_append less_add_Suc1 upt_add_eq_append
        upt_conv_Cons zero_le plus_nat.add_0)
  have before: "removeExited ?p [0 ..< ?j] ?arr ?n [] = Some (?arr, ?n, [])"
  proof (rule removeExited_no_match)
    show "\<forall>i \<in> set [0 ..< ?j]. \<not> exitedPid ?p (?arr ! i)"
      using others by (simp add: nth_append)
  qed
  have shift: "take ?j ?arr @ drop (?j + 1) (take ?n ?arr) @ drop (?n - 1) ?arr = ?arr'"
    by (cases ys rule: rev_cases) simp_all
  have at: "removeExited ?p (?j # [Suc ?j ..< ?n]) ?arr ?n [] =
              removeExited ?p [Suc ?j ..< ?n] ?arr' (?n - 1) ?t"
    using g shift by (simp add: removeExited_Cons del: removeExited.simps(2))
  have after: "removeExited ?p [Suc ?j ..< ?n] ?arr' (?n - 1) ?t = Some (?arr', ?n - 1, ?t)"
  proof (rule removeExited_no_match)
    show "\<forall>i \<in> set [Suc ?j ..< ?n]. \<not> exitedPid ?p (?arr' ! i)"
    proof
      fix i assume "i \<in> set [Suc ?j ..< ?n]"
      then have i: "?j < i" "i < ?j + Suc (length ys)" by auto
      then have ne: "ys \<noteq> []" by auto
      from i have "?arr' ! i = (ys @ [last ys]) ! (i - ?j)"
        using ne by (simp add: nth_append)
      moreover from i have "i - ?j < length (ys @ [last ys])" by simp
      then have "(ys @ [last ys]) ! (i - ?j) \<in> set (ys @ [last ys])"
        by (rule nth_mem)
      ultimately have "?arr' ! i \<in> set ys" using ne by auto
      with others show "\<not> exitedPid ?p (?arr' ! i)" by simp
    qed
  qed
  have "removeExited ?p [0 ..< ?n] ?arr ?n [] = Some (?arr', ?n - 1, ?t)"
    by (simp only: split removeExited_append before at after option.case prod.case)
  then show ?thesis
    by (simp add: round_runningGames rg)
qed

lemma round_error_only_logged:
  "map_option runningGames (listenForGameStates_round state s) =
   map_option runningGames (listenForGameStates_round (state\<lparr>state_err := None\<rparr>) s)"
  by (simp add: round_runningGames split: option.splits)

text \<open>
  C10.  \<open>listenForGameStates\<close> removes elements from \<open>runningGames\<close> while it
  ranges over it.  With the tracked instances \<open>X\<close> and \<open>Y\<close> of process
  identifier 1 and \<open>Z\<close> of process identifier 2, a notification for the process
  identifier 1 removes \<open>X\<close> and keeps \<open>Y\<close>, although \<open>Y\<close> matches.  With two
  tracked instances of process identifier 1, which is what the darwin build of
  \<open>launch\<close> returns for every instance, the same notification ends in the panic of
  a slice expression out of range.
\<close>

theorem listenForGameStates_round_twin_pid:
  "listenForGameStates_round exited_1 three_running =
     Some \<lparr>runningGames = [\<lparr>PID = 1, GameID = ''Y''\<rparr>, \<lparr>PID = 2, GameID = ''Z''\<rparr>],
           steps = [MuxLock, ReadRunningGames, ReadRunningGames, ReadRunningGames,
                    WriteRunningGames, MuxUnlock]\<rparr> \<and>
   listenForGameStates_round exited_1 two_running = None"
proof -
  have u3: "[0 ..< 3] = [0, 1, 2]" and u2: "[0 ..< 2] = [0, 1]"
    by (simp_all add: upt_rec)
  show ?thesis
    by (simp add: listenForGameStates_round_def exited_1_def three_running_def two_running_def
          record_step_def Let_def u3 u2)
qed

text \<open>
  A round of the listener that does not panic has all its accesses between
  \<open>s.mux.Lock()\<close> and \<open>s.mux.Unlock()\<close>.
\<close>

lemma underLock_accesses:
  "underLock True (concat (replicate k [ReadRunningGames, ReadRunningGames, WriteRunningGames])
      @ rest) = underLock True rest"
  by (induction k) simp_all

lemma removeExited_trail:
  "removeExited p indices array len trail = Some (array', len', trail') \<Longrightarrow>
     \<exists>k. trail' = trail @
       concat (replicate k [ReadRunningGames, ReadRunningGames, WriteRunningGames])"
proof (induction indices arbitrary: array len trail)
  case Nil
  then have "trail' = trail @ concat (replicate 0 [ReadRunningGames, ReadRunningGames,
      WriteRunningGames])" by simp
  then show ?case by blast
next
  case (Cons i indices)
  show ?case
  proof (cases "exitedPid p (array ! i)")
    case False
    with Cons.prems have "removeExited p indices array len trail = Some (array', len', trail')"
      by (simp add: removeExited_Cons del: removeExited.simps(2))
    then show ?thesis by (rule Cons.IH)
  next
    case True
    let ?t = "[ReadRunningGames, ReadRunningGames, WriteRunningGames]"
    from True Cons.prems have "removeExited p indices
        (take i array @ drop (i + 1) (take len array) @ drop (len - 1) array) (len - 1)
        (trail @ ?t) = Some (array', len', trail')"
      by (simp add: removeExited_Cons del: removeExited.simps(2) split: if_splits)
    from Cons.IH [OF this] obtain k where "trail' = (trail @ ?t) @ concat (replicate k ?t)"
      by blast
    then have "trail' = trail @ concat (replicate (Suc k) ?t)" by simp
    then show ?thesis by blast
  qed
qed

lemma round_under_lock:
  assumes "listenForGameStates_round state s = Some s'"
  shows "underLock False (newSteps s s')"
proof -
  from assms obtain array len trail where
    r: "removeExited (state_pid state) [0 ..< length (runningGames s)] (runningGames s)
          (length (runningGames s)) [] = Some (array, len, trail)"
    and s': "steps s' = steps s @
                  (case state_err state of
                     Some err \<Rightarrow> [LogError (''Diablo II exec with code: '' @ errorString err)]
                   | None \<Rightarrow> []) @
                  [MuxLock, ReadRunningGames] @ trail @ [MuxUnlock]"
    by (auto simp: round_runningGames split: option.splits)
  from removeExited_trail [OF r] obtain k where
    "trail = concat (replicate k [ReadRunningGames, ReadRunningGames, WriteRunningGames])"
    by auto
  with s' show ?thesis
    by (cases "state_err state") (simp_all add: newSteps_def underLock_accesses)
qed

section \<open>Properties of the validation\<close>

lemma plan_empty_matches:
  assumes "getFilesToPatch h M D I = Inr ([], len)"
  shows "layerMatches h D I M"
  unfolding layerMatches_def
proof (intro ballI impI)
  fix f assume f: "f \<in> set M" "Name f \<notin> set I"
  from getFilesToPatch_loop_Inr [of h D I M "[]" 0 "[]" len] assms
  have e: "filter (planned h D I) M = []"
    and u: "\<forall>f \<in> set M. Name f \<notin> set I \<longrightarrow> \<not> unreadable h D f"
    by (simp_all add: getFilesToPatch_def)
  from e f have "\<not> stale h D f" by (auto simp: filter_empty_conv planned_def)
  moreover from u f have "\<not> unreadable h D f" by simp
  ultimately show "localCRC h D f = Hashed (CRC f)"
    by (cases "localCRC h D f") (simp_all add: stale_def unreadable_def)
qed

lemma plan_nonempty_mismatch:
  assumes "getFilesToPatch h M D I = Inr (names, len)" and "names \<noteq> []"
  shows "\<not> layerMatches h D I M"
proof -
  from getFilesToPatch_loop_Inr [of h D I M "[]" 0 names len] assms
  have "filter (planned h D I) M \<noteq> []"
    by (auto simp: getFilesToPatch_def)
  then obtain f where "f \<in> set M" "planned h D I f"
    by (auto simp: filter_empty_conv)
  then show ?thesis
    by (auto simp: layerMatches_def planned_def stale_def)
qed

lemma maphackVerdict_None:
  "maphackVerdict e w g missing = None \<longleftrightarrow>
     (if Maphack g then missing = [] else isMaphackInstalled e w (Location g) = Inr False)"
  by (auto simp: maphackVerdict_def split: sum.splits)

lemma maphackVerdict_Some:
  "maphackVerdict e w g missing = Some r \<Longrightarrow>
     r \<noteq> Inr True \<and>
     (r = Inr False \<longrightarrow>
        (if Maphack g then missing \<noteq> [] else isMaphackInstalled e w (Location g) = Inr True))"
  by (auto simp: maphackVerdict_def split: sum.splits if_splits)

lemma hdVerdict_None:
  "hdVerdict e w g missing = None \<longleftrightarrow>
     (if HD g then missing = [] else isHDInstalled e w (Location g) = Inr False)"
  by (auto simp: hdVerdict_def split: sum.splits)

lemma hdVerdict_Some:
  "hdVerdict e w g missing = Some r \<Longrightarrow>
     r \<noteq> Inr True \<and>
     (r = Inr False \<longrightarrow>
        (if HD g then missing \<noteq> [] else isHDInstalled e w (Location g) = Inr True))"
  by (auto simp: hdVerdict_def split: sum.splits if_splits)

lemma validateGame_verdict:
  "(validateGame e w sl mh hdm g = None \<longrightarrow> installUpToDate e w sl mh hdm g) \<and>
   (validateGame e w sl mh hdm g = Some (Inr False) \<longrightarrow> \<not> installUpToDate e w sl mh hdm g) \<and>
   validateGame e w sl mh hdm g \<noteq> Some (Inr True)"
proof -
  let ?h = "hashCRC32 e w" and ?D = "Location g"
  let ?I = "if OverrideBHCfg g then [''BH.cfg''] else []"
  show ?thesis
  proof (cases "getFilesToPatch ?h sl ?D []")
    case (Inl err)
    then show ?thesis by (simp add: validateGame_def validate113cVersion_def)
  next
    case (Inr p1)
    obtain n1 l1 where p1: "p1 = (n1, l1)" by (cases p1)
    show ?thesis
    proof (cases "n1 = []")
      case False
      with Inr p1 plan_nonempty_mismatch [of ?h sl ?D "[]" n1 l1] show ?thesis
        by (simp add: validateGame_def validate113cVersion_def installUpToDate_def)
    next
      case True
      with Inr p1 have m1: "layerMatches ?h ?D [] sl"
        using plan_empty_matches [of ?h sl ?D "[]" l1] by simp
      show ?thesis
      proof (cases "getFilesToPatch ?h mh ?D ?I")
        case (Inl err)
        with Inr p1 True show ?thesis
          by (simp add: validateGame_def validate113cVersion_def Let_def)
      next
        case p2: (Inr p2)
        obtain n2 l2 where p2': "p2 = (n2, l2)" by (cases p2)
        have m2: "n2 = [] \<Longrightarrow> layerMatches ?h ?D ?I mh"
          using plan_empty_matches [of ?h mh ?D ?I l2] p2 p2' by simp
        have m2': "n2 \<noteq> [] \<Longrightarrow> \<not> layerMatches ?h ?D ?I mh"
          using plan_nonempty_mismatch [of ?h mh ?D ?I n2 l2] p2 p2' by simp
        show ?thesis
        proof (cases "maphackVerdict e w g n2")
          case (Some r)
          with Inr p1 True p2 p2' have v: "validateGame e w sl mh hdm g = Some r"
            by (simp add: validateGame_def validate113cVersion_def Let_def)
          from maphackVerdict_Some [OF Some] m2' v show ?thesis
            by (auto simp: installUpToDate_def split: if_splits)
        next
          case None
          with maphackVerdict_None [of e w g n2] m2
          have mm: "if Maphack g then layerMatches ?h ?D ?I mh
                    else isMaphackInstalled e w ?D = Inr False"
            by (auto split: if_splits)
          show ?thesis
          proof (cases "getFilesToPatch ?h hdm ?D []")
            case (Inl err)
            with Inr p1 True p2 p2' None show ?thesis
              by (simp add: validateGame_def validate113cVersion_def Let_def)
          next
            case p3: (Inr p3)
            obtain n3 l3 where p3': "p3 = (n3, l3)" by (cases p3)
            have m3: "n3 = [] \<Longrightarrow> layerMatches ?h ?D [] hdm"
              using plan_empty_matches [of ?h hdm ?D "[]" l3] p3 p3' by simp
            have m3': "n3 \<noteq> [] \<Longrightarrow> \<not> layerMatches ?h ?D [] hdm"
              using plan_nonempty_mismatch [of ?h hdm ?D "[]" n3 l3] p3 p3' by simp
            from Inr p1 True p2 p2' None p3 p3'
            have v: "validateGame e w sl mh hdm g = hdVerdict e w g n3"
              by (simp add: validateGame_def validate113cVersion_def Let_def)
            show ?thesis
            proof (cases "hdVerdict e w g n3")
              case hn: None
              with hdVerdict_None [of e w g n3] m3
              have "if HD g then layerMatches ?h ?D [] hdm
                    else isHDInstalled e w ?D = Inr False"
                by (auto split: if_splits)
              with m1 mm v hn show ?thesis
                by (simp add: installUpToDate_def validate113cVersion_def)
            next
              case (Some r)
              from hdVerdict_Some [OF Some] m3' v Some show ?thesis
                by (auto simp: installUpToDate_def split: if_splits)
            qed
          qed
        qed
      qed
    qed
  qed
qed

lemma validateGames_True:
  "validateGames e w slash maph hdm games = Inr True \<Longrightarrow>
     \<forall>g \<in> set games. installUpToDate e w slash maph hdm g"
proof (induction games)
  case Nil
  then show ?case by simp
next
  case (Cons g games)
  note v = validateGame_verdict [of e w slash maph hdm g]
  show ?case
  proof (cases "validateGame e w slash maph hdm g")
    case None
    with Cons v show ?thesis by simp
  next
    case (Some r)
    with Cons.prems have "r = Inr True" by simp
    with Some v show ?thesis by simp
  qed
qed

lemma validateGames_False:
  "validateGames e w slash maph hdm games = Inr False \<Longrightarrow>
     \<exists>before g after. games = before @ g # after \<and>
        (\<forall>g' \<in> set before. installUpToDate e w slash maph hdm g') \<and>
        \<not> installUpToDate e w slash maph hdm g"
proof (induction games)
  case Nil
  then show ?case by simp
next
  case (Cons g games)
  note v = validateGame_verdict [of e w slash maph hdm g]
  show ?case
  proof (cases "validateGame e w slash maph hdm g")
    case None
    with Cons.prems have "validateGames e w slash maph hdm games = Inr False" by simp
    from Cons.IH [OF this] obtain before g' after where
      b: "games = before @ g' # after"
         "\<forall>x \<in> set before. installUpToDate e w slash maph hdm x"
         "\<not> installUpToDate e w slash maph hdm g'"
      by blast
    from None v have "installUpToDate e w slash maph hdm g" by simp
    with b have "g # games = (g # before) @ g' # after"
      and "\<forall>x \<in> set (g # before). installUpToDate e w slash maph hdm x"
      by simp_all
    with b(3) show ?thesis by blast
  next
    case (Some r)
    with Cons.prems have "r = Inr False" by simp
    with Some v have "\<not> installUpToDate e w slash maph hdm g" by simp
    then have "g # games = [] @ g # games \<and>
        (\<forall>x \<in> set []. installUpToDate e w slash maph hdm x) \<and>
        \<not> installUpToDate e w slash maph hdm g"
      by simp
    then show ?thesis by blast
  qed
qed

lemma getManifest_frame:
  "getManifest e p w = (r, w') \<Longrightarrow>
     disk w' = disk w \<and> trace w' = trace w @ [Fetched p] \<and> r = fst (getManifest e p w0)"
  by (auto simp: getManifest_def GetFile_def emit_def split: sum.splits option.splits)

lemma hashCRC32_disk: "disk w' = disk w \<Longrightarrow> hashCRC32 e w' = hashCRC32 e w"
proof (rule ext)
  fix p assume "disk w' = disk w"
  then have "disk w' p = disk w p" by simp
  then show "hashCRC32 e w' p = hashCRC32 e w p" by (simp add: hashCRC32_def)
qed

lemma osStat_disk: "disk w' = disk w \<Longrightarrow> osStat e w' = osStat e w"
proof (rule ext)
  fix p assume "disk w' = disk w"
  then have "disk w' p = disk w p" by simp
  then show "osStat e w' p = osStat e w p" by (auto simp: osStat_def split: option.splits)
qed

lemma validateGame_disk:
  assumes "disk w' = disk w"
  shows "validateGame e w' slash maph hdm g = validateGame e w slash maph hdm g"
  unfolding validateGame_def maphackVerdict_def hdVerdict_def isMaphackInstalled_def
    isHDInstalled_def hashCRC32_disk [OF assms] osStat_disk [OF assms] ..

lemma validateGames_disk:
  assumes "disk w' = disk w"
  shows "validateGames e w' slash maph hdm games = validateGames e w slash maph hdm games"
  by (induction games) (simp_all add: validateGame_disk [OF assms] split: option.split)

lemma validateGames_empty: "validateGames e w slash maph hdm [] = Inr True"
  by simp

text \<open>The outcome of the whole run, by the stage at which it ends.\<close>

lemma ValidateGameVersions_stages:
  "(\<exists>err k. k \<le> 3 \<and> fst (ValidateGameVersions e w) = Inl err \<and>
        disk (snd (ValidateGameVersions e w)) = disk w \<and>
        newEffects w (snd (ValidateGameVersions e w)) =
          take k [Fetched ''current/manifest.json'', Fetched ''maphack/manifest.json'',
                  Fetched ''hd/manifest.json'']) \<or>
   (\<exists>games slash maph hdm.
        configRead e = Inr games \<and>
        fst (getManifest e ''current/manifest.json'' w) = Inr slash \<and>
        fst (getManifest e ''maphack/manifest.json'' w) = Inr maph \<and>
        fst (getManifest e ''hd/manifest.json'' w) = Inr hdm \<and>
        fst (ValidateGameVersions e w) = validateGames e w slash maph hdm games \<and>
        disk (snd (ValidateGameVersions e w)) = disk w \<and>
        newEffects w (snd (ValidateGameVersions e w)) =
          [Fetched ''current/manifest.json'', Fetched ''maphack/manifest.json'',
           Fetched ''hd/manifest.json''])"
proof (cases "configRead e")
  case (Inl err)
  then have "fst (ValidateGameVersions e w) = Inl err" "snd (ValidateGameVersions e w) = w"
    by (simp_all add: ValidateGameVersions_def)
  then have "0 \<le> (3::nat) \<and> fst (ValidateGameVersions e w) = Inl err \<and>
        disk (snd (ValidateGameVersions e w)) = disk w \<and>
        newEffects w (snd (ValidateGameVersions e w)) =
          take 0 [Fetched ''current/manifest.json'', Fetched ''maphack/manifest.json'',
                  Fetched ''hd/manifest.json'']"
    by (simp add: newEffects_def)
  then show ?thesis by blast
next
  case (Inr games)
  obtain r1 w1 where g1: "getManifest e ''current/manifest.json'' w = (r1, w1)"
    by (cases "getManifest e ''current/manifest.json'' w")
  note f1 = getManifest_frame [OF g1, of w]
  show ?thesis
  proof (cases r1)
    case (Inl err)
    with Inr g1 have "fst (ValidateGameVersions e w) = Inl err"
      "snd (ValidateGameVersions e w) = w1"
      by (simp_all add: ValidateGameVersions_def)
    with f1 have "1 \<le> (3::nat) \<and> fst (ValidateGameVersions e w) = Inl err \<and>
        disk (snd (ValidateGameVersions e w)) = disk w \<and>
        newEffects w (snd (ValidateGameVersions e w)) =
          take 1 [Fetched ''current/manifest.json'', Fetched ''maphack/manifest.json'',
                  Fetched ''hd/manifest.json'']"
      by (simp add: newEffects_def)
    then show ?thesis by blast
  next
    case slash: (Inr slash)
    obtain r2 w2 where g2: "getManifest e ''maphack/manifest.json'' w1 = (r2, w2)"
      by (cases "getManifest e ''maphack/manifest.json'' w1")
    note f2 = getManifest_frame [OF g2, of w]
    show ?thesis
    proof (cases r2)
      case (Inl err)
      with Inr g1 slash g2 have "fst (ValidateGameVersions e w) = Inl err"
        "snd (ValidateGameVersions e w) = w2"
        by (simp_all add: ValidateGameVersions_def)
      with f1 f2 have "2 \<le> (3::nat) \<and> fst (ValidateGameVersions e w) = Inl err \<and>
        disk (snd (ValidateGameVersions e w)) = disk w \<and>
        newEffects w (snd (ValidateGameVersions e w)) =
          take 2 [Fetched ''current/manifest.json'', Fetched ''maphack/manifest.json'',
                  Fetched ''hd/manifest.json'']"
        by (simp add: newEffects_def numeral_2_eq_2)
      then show ?thesis by blast
    next
      case maph: (Inr maph)
      obtain r3 w3 where g3: "getManifest e ''hd/manifest.json'' w2 = (r3, w3)"
        by (cases "getManifest e ''hd/manifest.json'' w2")
      note f3 = getManifest_frame [OF g3, of w]
      from f1 f2 f3 have d3: "disk w3 = disk w"
        and t3: "newEffects w w3 =
          [Fetched ''current/manifest.json'', Fetched ''maphack/manifest.json'',
           Fetched ''hd/manifest.json'']"
        by (simp_all add: newEffects_def)
      show ?thesis
      proof (cases r3)
        case (Inl err)
        with Inr g1 slash g2 maph g3 have "fst (ValidateGameVersions e w) = Inl err"
          "snd (ValidateGameVersions e w) = w3"
          by (simp_all add: ValidateGameVersions_def)
        with d3 t3 have "3 \<le> (3::nat) \<and> fst (ValidateGameVersions e w) = Inl err \<and>
          disk (snd (ValidateGameVersions e w)) = disk w \<and>
          newEffects w (snd (ValidateGameVersions e w)) =
            take 3 [Fetched ''current/manifest.json'', Fetched ''maphack/manifest.json'',
                    Fetched ''hd/manifest.json'']"
          by simp
        then show ?thesis by blast
      next
        case hdm: (Inr hdm)
        have "validateGames e w3 slash maph hdm games = validateGames e w slash maph hdm games"
          using d3 by (rule validateGames_disk)
        moreover from Inr g1 slash g2 maph g3 hdm
        have "fst (ValidateGameVersions e w) =
                (if length games > 0 then validateGames e w3 slash maph hdm games else Inr True)"
          and "snd (ValidateGameVersions e w) = w3"
          by (simp_all add: ValidateGameVersions_def)
        ultimately have "fst (ValidateGameVersions e w) = validateGames e w slash maph hdm games"
          and "snd (ValidateGameVersions e w) = w3"
          by (cases games; simp)+
        note fin = this
        from f1 slash have m1: "fst (getManifest e ''current/manifest.json'' w) = Inr slash"
          by simp
        from f2 maph have m2: "fst (getManifest e ''maphack/manifest.json'' w) = Inr maph"
          by simp
        from f3 hdm have m3: "fst (getManifest e ''hd/manifest.json'' w) = Inr hdm"
          by simp
        from fin d3 t3 have "disk (snd (ValidateGameVersions e w)) = disk w"
          and "newEffects w (snd (ValidateGameVersions e w)) =
            [Fetched ''current/manifest.json'', Fetched ''maphack/manifest.json'',
             Fetched ''hd/manifest.json'']"
          by simp_all
        with Inr m1 m2 m3 fin(1) show ?thesis by blast
      qed
    qed
  qed
qed

lemma getFilesToPatch_Inl_unreadable:
  "getFilesToPatch h M D I = Inl err \<Longrightarrow> \<exists>f \<in> set M. Name f \<notin> set I \<and> unreadable h D f"
  using getFilesToPatch_loop_Inl [of h D I M "[]" 0 err]
  by (auto simp: getFilesToPatch_def unreadable_def)

lemma validateGame_no_error:
  assumes "\<not> lookupFails e w sl mh hdm g"
  shows "validateGame e w sl mh hdm g \<noteq> Some (Inl err)"
proof
  assume v: "validateGame e w sl mh hdm g = Some (Inl err)"
  let ?h = "hashCRC32 e w" and ?D = "Location g"
  let ?I = "if OverrideBHCfg g then [''BH.cfg''] else []"
  from assms have r1: "\<And>x. getFilesToPatch ?h sl ?D [] \<noteq> Inl x"
    and r2: "\<And>x. getFilesToPatch ?h mh ?D ?I \<noteq> Inl x"
    and r3: "\<And>x. getFilesToPatch ?h hdm ?D [] \<noteq> Inl x"
    and s1: "\<not> Maphack g \<Longrightarrow> \<not> isl (isMaphackInstalled e w ?D)"
    and s2: "\<not> HD g \<Longrightarrow> \<not> isl (isHDInstalled e w ?D)"
    using getFilesToPatch_Inl_unreadable [of ?h sl ?D "[]"]
      getFilesToPatch_Inl_unreadable [of ?h mh ?D ?I]
      getFilesToPatch_Inl_unreadable [of ?h hdm ?D "[]"]
    by (auto simp: lookupFails_def)
  have m: "maphackVerdict e w g n \<noteq> Some (Inl err)" for n
    using s1 by (auto simp: maphackVerdict_def split: sum.splits)
  have h: "hdVerdict e w g n \<noteq> Some (Inl err)" for n
    using s2 by (auto simp: hdVerdict_def split: sum.splits)
  from v r1 r2 r3 m h show False
    by (auto simp: validateGame_def validate113cVersion_def Let_def
          split: sum.splits if_splits option.splits prod.splits)
qed

lemma validateGame_decides:
  assumes "\<not> lookupFails e w sl mh hdm g"
  shows "validateGame e w sl mh hdm g =
           (if installUpToDate e w sl mh hdm g then None else Some (Inr False))"
proof (cases "validateGame e w sl mh hdm g")
  case None
  with validateGame_verdict [of e w sl mh hdm g] show ?thesis by simp
next
  case (Some r)
  show ?thesis
  proof (cases r)
    case (Inl err)
    with Some validateGame_no_error [OF assms, of err] show ?thesis by simp
  next
    case (Inr b)
    with Some validateGame_verdict [of e w sl mh hdm g] show ?thesis
      by (cases b) simp_all
  qed
qed

lemma validateGames_first_mismatch:
  "\<forall>g' \<in> set before. installUpToDate e w sl mh hdm g' \<and> \<not> lookupFails e w sl mh hdm g' \<Longrightarrow>
   \<not> installUpToDate e w sl mh hdm g \<Longrightarrow> \<not> lookupFails e w sl mh hdm g \<Longrightarrow>
     validateGames e w sl mh hdm (before @ g # after) = Inr False"
  by (induction before) (simp_all add: validateGame_decides)

lemma validateGames_all_up_to_date:
  "\<forall>g \<in> set games. installUpToDate e w sl mh hdm g \<and> \<not> lookupFails e w sl mh hdm g \<Longrightarrow>
     validateGames e w sl mh hdm games = Inr True"
  by (induction games) (simp_all add: validateGame_decides)

lemma ValidateGameVersions_run:
  assumes "configRead e = Inr games"
    and "fst (getManifest e ''current/manifest.json'' w) = Inr slash"
    and "fst (getManifest e ''maphack/manifest.json'' w) = Inr maph"
    and "fst (getManifest e ''hd/manifest.json'' w) = Inr hdm"
  shows "fst (ValidateGameVersions e w) = validateGames e w slash maph hdm games"
proof -
  obtain r1 w1 where g1: "getManifest e ''current/manifest.json'' w = (r1, w1)"
    by (cases "getManifest e ''current/manifest.json'' w")
  obtain r2 w2 where g2: "getManifest e ''maphack/manifest.json'' w1 = (r2, w2)"
    by (cases "getManifest e ''maphack/manifest.json'' w1")
  obtain r3 w3 where g3: "getManifest e ''hd/manifest.json'' w2 = (r3, w3)"
    by (cases "getManifest e ''hd/manifest.json'' w2")
  from getManifest_frame [OF g1, of w] assms(2) have r1: "r1 = Inr slash" by simp
  from getManifest_frame [OF g2, of w] assms(3) have r2: "r2 = Inr maph" by simp
  from getManifest_frame [OF g3, of w] assms(4) have r3: "r3 = Inr hdm"
    and d3: "disk w3 = disk w2" by simp_all
  from assms(1) g1 g2 g3 r1 r2 r3
  have "fst (ValidateGameVersions e w) =
          (if length games > 0 then validateGames e w3 slash maph hdm games else Inr True)"
    by (simp add: ValidateGameVersions_def)
  moreover have "disk w3 = disk w"
    using getManifest_frame [OF g1, of w] getManifest_frame [OF g2, of w] d3 by simp
  then have "validateGames e w3 slash maph hdm games = validateGames e w slash maph hdm games"
    by (rule validateGames_disk)
  ultimately show ?thesis by (cases games) simp_all
qed

text \<open>
  C7, as stated, asks that \<open>ValidateGameVersions\<close> returns true only if the base
  layer matches its manifest too.  It never fetches the base manifest
  \<open>1.13c/manifest.json\<close>: for the base version it only asks
  \<open>validate113cVersion\<close>.  In an empty install directory, with a base manifest
  that lists \<open>a.mpq\<close> and the other manifests empty, it returns true although the
  base layer does not match its manifest (\<open>apply113c\<close> would plan \<open>a.mpq\<close>).
\<close>

theorem ValidateGameVersions_skips_base_manifest:
  "fst (ValidateGameVersions base_env empty_install) = Inr True \<and>
   configRead base_env = Inr [game_X] \<and>
   fst (getManifest base_env ''1.13c/manifest.json'' empty_install) = Inr [a_mpq] \<and>
   \<not> layerMatches (hashCRC32 base_env empty_install) (Location game_X) [] [a_mpq] \<and>
   getFilesToPatch (hashCRC32 base_env empty_install) [a_mpq] (Location game_X) [] =
     Inr ([''a.mpq''], 1000)"
proof -
  have v: "fst (ValidateGameVersions base_env empty_install) = Inr True"
    by (simp add: ValidateGameVersions_def getManifest_def GetFile_def emit_def base_env_def
          plain_env_def empty_install_def game_X_def validateGame_def validate113cVersion_def
          getFilesToPatch_def maphackVerdict_def hdVerdict_def isMaphackInstalled_def
          isHDInstalled_def osStat_def localizePath_def joinPath_def Let_def)
  have c: "configRead base_env = Inr [game_X]"
    by (simp add: base_env_def plain_env_def)
  have m: "fst (getManifest base_env ''1.13c/manifest.json'' empty_install) = Inr [a_mpq]"
    by (simp add: getManifest_def GetFile_def base_env_def plain_env_def)
  have l: "\<not> layerMatches (hashCRC32 base_env empty_install) (Location game_X) [] [a_mpq]"
    by (simp add: layerMatches_def localCRC_def hashCRC32_def empty_install_def)
  have p: "getFilesToPatch (hashCRC32 base_env empty_install) [a_mpq] (Location game_X) [] =
     Inr ([''a.mpq''], 1000)"
    by (simp add: getFilesToPatch_def hashCRC32_def empty_install_def a_mpq_def)
  show ?thesis by (intro conjI v c m l p)
qed

text \<open>
  C7, amended.  \<open>ValidateGameVersions\<close> returns true only if the configuration and
  the three manifests (core, maphack, HD) are read and every configured install is up
  to date in the sense of \<open>installUpToDate\<close>: \<open>validate113cVersion\<close> accepts
  it, the core layer matches its manifest, an enabled optional layer matches its
  manifest (leaving out \<open>BH.cfg\<close> under the override) and a disabled optional
  layer is reported as not installed.  It returns false only if some install is not
  up to date while all installs before it in the configuration are.  Conversely, it
  returns false at the first install, in the order of the configuration, that is not
  up to date, and true when every install is up to date, as long as no check of these
  installs ends in an error (\<open>lookupFails\<close>).  In every case the disk is left as
  it was, and nothing is fetched but, in this order, the three manifests.
\<close>

theorem ValidateGameVersions_checks:
  "(fst (ValidateGameVersions e w) = Inr True \<longrightarrow>
      (\<exists>games slash maph hdm.
          configRead e = Inr games \<and>
          fst (getManifest e ''current/manifest.json'' w) = Inr slash \<and>
          fst (getManifest e ''maphack/manifest.json'' w) = Inr maph \<and>
          fst (getManifest e ''hd/manifest.json'' w) = Inr hdm \<and>
          (\<forall>g \<in> set games. installUpToDate e w slash maph hdm g))) \<and>
   (fst (ValidateGameVersions e w) = Inr False \<longrightarrow>
      (\<exists>games slash maph hdm before g after.
          configRead e = Inr games \<and>
          fst (getManifest e ''current/manifest.json'' w) = Inr slash \<and>
          fst (getManifest e ''maphack/manifest.json'' w) = Inr maph \<and>
          fst (getManifest e ''hd/manifest.json'' w) = Inr hdm \<and>
          games = before @ g # after \<and>
          (\<forall>g' \<in> set before. installUpToDate e w slash maph hdm g') \<and>
          \<not> installUpToDate e w slash maph hdm g)) \<and>
   (\<forall>games slash maph hdm before g after.
      configRead e = Inr games \<and>
      fst (getManifest e ''current/manifest.json'' w) = Inr slash \<and>
      fst (getManifest e ''maphack/manifest.json'' w) = Inr maph \<and>
      fst (getManifest e ''hd/manifest.json'' w) = Inr hdm \<and>
      games = before @ g # after \<and>
      (\<forall>g' \<in> set before. installUpToDate e w slash maph hdm g' \<and>
                           \<not> lookupFails e w slash maph hdm g') \<and>
      \<not> installUpToDate e w slash maph hdm g \<and> \<not> lookupFails e w slash maph hdm g \<longrightarrow>
      fst (ValidateGameVersions e w) = Inr False) \<and>
   (\<forall>games slash maph hdm.
      configRead e = Inr games \<and>
      fst (getManifest e ''current/manifest.json'' w) = Inr slash \<and>
      fst (getManifest e ''maphack/manifest.json'' w) = Inr maph \<and>
      fst (getManifest e ''hd/manifest.json'' w) = Inr hdm \<and>
      (\<forall>g \<in> set games. installUpToDate e w slash maph hdm g \<and>
                         \<not> lookupFails e w slash maph hdm g) \<longrightarrow>
      fst (ValidateGameVersions e w) = Inr True) \<and>
   disk (snd (ValidateGameVersions e w)) = disk w \<and>
   (\<exists>k \<le> 3. newEffects w (snd (ValidateGameVersions e w)) =
      take k [Fetched ''current/manifest.json'', Fetched ''maphack/manifest.json'',
              Fetched ''hd/manifest.json''])"
proof -
  let ?three = "[Fetched ''current/manifest.json'', Fetched ''maphack/manifest.json'',
                 Fetched ''hd/manifest.json'']"
  have fwd: "\<forall>games slash maph hdm before g after.
      configRead e = Inr games \<and>
      fst (getManifest e ''current/manifest.json'' w) = Inr slash \<and>
      fst (getManifest e ''maphack/manifest.json'' w) = Inr maph \<and>
      fst (getManifest e ''hd/manifest.json'' w) = Inr hdm \<and>
      games = before @ g # after \<and>
      (\<forall>g' \<in> set before. installUpToDate e w slash maph hdm g' \<and>
                           \<not> lookupFails e w slash maph hdm g') \<and>
      \<not> installUpToDate e w slash maph hdm g \<and> \<not> lookupFails e w slash maph hdm g \<longrightarrow>
      fst (ValidateGameVersions e w) = Inr False"
  proof (intro allI impI, elim conjE)
    fix games slash maph hdm before g after
    assume c: "configRead e = Inr games"
      and m: "fst (getManifest e ''current/manifest.json'' w) = Inr slash"
        "fst (getManifest e ''maphack/manifest.json'' w) = Inr maph"
        "fst (getManifest e ''hd/manifest.json'' w) = Inr hdm"
      and g: "games = before @ g # after"
      and b: "\<forall>g' \<in> set before. installUpToDate e w slash maph hdm g' \<and>
                \<not> lookupFails e w slash maph hdm g'"
      and n: "\<not> installUpToDate e w slash maph hdm g" "\<not> lookupFails e w slash maph hdm g"
    from ValidateGameVersions_run [OF c m]
    have "fst (ValidateGameVersions e w) = validateGames e w slash maph hdm games" .
    also have "\<dots> = Inr False"
      unfolding g using b n by (rule validateGames_first_mismatch)
    finally show "fst (ValidateGameVersions e w) = Inr False" .
  qed
  have tru: "\<forall>games slash maph hdm.
      configRead e = Inr games \<and>
      fst (getManifest e ''current/manifest.json'' w) = Inr slash \<and>
      fst (getManifest e ''maphack/manifest.json'' w) = Inr maph \<and>
      fst (getManifest e ''hd/manifest.json'' w) = Inr hdm \<and>
      (\<forall>g \<in> set games. installUpToDate e w slash maph hdm g \<and>
                         \<not> lookupFails e w slash maph hdm g) \<longrightarrow>
      fst (ValidateGameVersions e w) = Inr True"
  proof (intro allI impI, elim conjE)
    fix games slash maph hdm
    assume c: "configRead e = Inr games"
      and m: "fst (getManifest e ''current/manifest.json'' w) = Inr slash"
        "fst (getManifest e ''maphack/manifest.json'' w) = Inr maph"
        "fst (getManifest e ''hd/manifest.json'' w) = Inr hdm"
      and a: "\<forall>g \<in> set games. installUpToDate e w slash maph hdm g \<and>
                \<not> lookupFails e w slash maph hdm g"
    from ValidateGameVersions_run [OF c m]
    have "fst (ValidateGameVersions e w) = validateGames e w slash maph hdm games" .
    also from a have "\<dots> = Inr True" by (rule validateGames_all_up_to_date)
    finally show "fst (ValidateGameVersions e w) = Inr True" .
  qed
  from ValidateGameVersions_stages [of e w]
  have rest: "(fst (ValidateGameVersions e w) = Inr True \<longrightarrow>
      (\<exists>games slash maph hdm.
          configRead e = Inr games \<and>
          fst (getManifest e ''current/manifest.json'' w) = Inr slash \<and>
          fst (getManifest e ''maphack/manifest.json'' w) = Inr maph \<and>
          fst (getManifest e ''hd/manifest.json'' w) = Inr hdm \<and>
          (\<forall>g \<in> set games. installUpToDate e w slash maph hdm g))) \<and>
   (fst (ValidateGameVersions e w) = Inr False \<longrightarrow>
      (\<exists>games slash maph hdm before g after.
          configRead e = Inr games \<and>
          fst (getManifest e ''current/manifest.json'' w) = Inr slash \<and>
          fst (getManifest e ''maphack/manifest.json'' w) = Inr maph \<and>
          fst (getManifest e ''hd/manifest.json'' w) = Inr hdm \<and>
          games = before @ g # after \<and>
          (\<forall>g' \<in> set before. installUpToDate e w slash maph hdm g') \<and>
          \<not> installUpToDate e w slash maph hdm g)) \<and>
   disk (snd (ValidateGameVersions e w)) = disk w \<and>
   (\<exists>k \<le> 3. newEffects w (snd (ValidateGameVersions e w)) = take k ?three)"
  proof
    assume "\<exists>err k. k \<le> 3 \<and> fst (ValidateGameVersions e w) = Inl err \<and>
        disk (snd (ValidateGameVersions e w)) = disk w \<and>
        newEffects w (snd (ValidateGameVersions e w)) = take k ?three"
    then obtain err k where k: "k \<le> 3" and r: "fst (ValidateGameVersions e w) = Inl err"
      and d: "disk (snd (ValidateGameVersions e w)) = disk w"
      and t: "newEffects w (snd (ValidateGameVersions e w)) = take k ?three"
      by blast
    from k t have "\<exists>k \<le> 3. newEffects w (snd (ValidateGameVersions e w)) = take k ?three"
      by blast
    with r d show ?thesis by simp
  next
    assume "\<exists>games slash maph hdm.
        configRead e = Inr games \<and>
        fst (getManifest e ''current/manifest.json'' w) = Inr slash \<and>
        fst (getManifest e ''maphack/manifest.json'' w) = Inr maph \<and>
        fst (getManifest e ''hd/manifest.json'' w) = Inr hdm \<and>
        fst (ValidateGameVersions e w) = validateGames e w slash maph hdm games \<and>
        disk (snd (ValidateGameVersions e w)) = disk w \<and>
        newEffects w (snd (ValidateGameVersions e w)) = ?three"
    then obtain games slash maph hdm where
      c: "configRead e = Inr games"
      and m: "fst (getManifest e ''current/manifest.json'' w) = Inr slash"
         "fst (getManifest e ''maphack/manifest.json'' w) = Inr maph"
         "fst (getManifest e ''hd/manifest.json'' w) = Inr hdm"
      and r: "fst (ValidateGameVersions e w) = validateGames e w slash maph hdm games"
      and d: "disk (snd (ValidateGameVersions e w)) = disk w"
      and t: "newEffects w (snd (ValidateGameVersions e w)) = ?three"
      by blast
    have a: "fst (ValidateGameVersions e w) = Inr True \<longrightarrow>
      (\<exists>games slash maph hdm.
          configRead e = Inr games \<and>
          fst (getManifest e ''current/manifest.json'' w) = Inr slash \<and>
          fst (getManifest e ''maphack/manifest.json'' w) = Inr maph \<and>
          fst (getManifest e ''hd/manifest.json'' w) = Inr hdm \<and>
          (\<forall>g \<in> set games. installUpToDate e w slash maph hdm g))"
    proof
      assume "fst (ValidateGameVersions e w) = Inr True"
      with r have "validateGames e w slash maph hdm games = Inr True" by simp
      from validateGames_True [OF this] c m show "\<exists>games slash maph hdm.
          configRead e = Inr games \<and>
          fst (getManifest e ''current/manifest.json'' w) = Inr slash \<and>
          fst (getManifest e ''maphack/manifest.json'' w) = Inr maph \<and>
          fst (getManifest e ''hd/manifest.json'' w) = Inr hdm \<and>
          (\<forall>g \<in> set games. installUpToDate e w slash maph hdm g)"
        by blast
    qed
    have b: "fst (ValidateGameVersions e w) = Inr False \<longrightarrow>
      (\<exists>games slash maph hdm before g after.
          configRead e = Inr games \<and>
          fst (getManifest e ''current/manifest.json'' w) = Inr slash \<and>
          fst (getManifest e ''maphack/manifest.json'' w) = Inr maph \<and>
          fst (getManifest e ''hd/manifest.json'' w) = Inr hdm \<and>
          games = before @ g # after \<and>
          (\<forall>g' \<in> set before. installUpToDate e w slash maph hdm g') \<and>
          \<not> installUpToDate e w slash maph hdm g)"
    proof
      assume "fst (ValidateGameVersions e w) = Inr False"
      with r have "validateGames e w slash maph hdm games = Inr False" by simp
      from validateGames_False [OF this] c m show "\<exists>games slash maph hdm before g after.
          configRead e = Inr games \<and>
          fst (getManifest e ''current/manifest.json'' w) = Inr slash \<and>
          fst (getManifest e ''maphack/manifest.json'' w) = Inr maph \<and>
          fst (getManifest e ''hd/manifest.json'' w) = Inr hdm \<and>
          games = before @ g # after \<and>
          (\<forall>g' \<in> set before. installUpToDate e w slash maph hdm g') \<and>
          \<not> installUpToDate e w slash maph hdm g"
        by blast
    qed
    have "(3::nat) \<le> 3 \<and> newEffects w (snd (ValidateGameVersions e w)) = take 3 ?three"
      using t by simp
    then have "\<exists>k \<le> 3. newEffects w (snd (ValidateGameVersions e w)) = take k ?three"
      by blast
    with a b d show ?thesis by blast
  qed
  from rest have a: "fst (ValidateGameVersions e w) = Inr True \<longrightarrow>
      (\<exists>games slash maph hdm.
          configRead e = Inr games \<and>
          fst (getManifest e ''current/manifest.json'' w) = Inr slash \<and>
          fst (getManifest e ''maphack/manifest.json'' w) = Inr maph \<and>
          fst (getManifest e ''hd/manifest.json'' w) = Inr hdm \<and>
          (\<forall>g \<in> set games. installUpToDate e w slash maph hdm g))"
    by (rule conjunct1)
  from rest have b: "fst (ValidateGameVersions e w) = Inr False \<longrightarrow>
      (\<exists>games slash maph hdm before g after.
          configRead e = Inr games \<and>
          fst (getManifest e ''current/manifest.json'' w) = Inr slash \<and>
          fst (getManifest e ''maphack/manifest.json'' w) = Inr maph \<and>
          fst (getManifest e ''hd/manifest.json'' w) = Inr hdm \<and>
          games = before @ g # after \<and>
          (\<forall>g' \<in> set before. installUpToDate e w slash maph hdm g') \<and>
          \<not> installUpToDate e w slash maph hdm g)"
    by (rule conjunct2 [THEN conjunct1])
  from rest have d: "disk (snd (ValidateGameVersions e w)) = disk w"
    by (rule conjunct2 [THEN conjunct2, THEN conjunct1])
  from rest have t: "\<exists>k \<le> 3. newEffects w (snd (ValidateGameVersions e w)) = take k ?three"
    by (rule conjunct2 [THEN conjunct2, THEN conjunct2])
  show ?thesis by (intro conjI a b fwd tru d t)
qed

theorem ValidateGameVersions_checks_witness:
  "configRead layers_env = Inr [game_M, game_N] \<and>
   installUpToDate layers_env installs_current [a_mpq] [bh_dll, bh_cfg] [d2hd_dll] game_M \<and>
   installUpToDate layers_env installs_current [a_mpq] [bh_dll, bh_cfg] [d2hd_dll] game_N \<and>
   fst (ValidateGameVersions layers_env installs_current) = Inr True \<and>
   installUpToDate layers_env installs_stale [a_mpq] [bh_dll, bh_cfg] [d2hd_dll] game_M \<and>
   \<not> layerMatches (hashCRC32 layers_env installs_stale) (Location game_N) [] [a_mpq] \<and>
   \<not> installUpToDate layers_env installs_stale [a_mpq] [bh_dll, bh_cfg] [d2hd_dll] game_N \<and>
   fst (ValidateGameVersions layers_env installs_stale) = Inr False \<and>
   disk (snd (ValidateGameVersions layers_env installs_stale)) = disk installs_stale"
proof -
  let ?sl = "[a_mpq]" and ?mh = "[bh_dll, bh_cfg]" and ?hd = "[d2hd_dll]"
  have c: "configRead layers_env = Inr [game_M, game_N]"
    by (simp add: layers_env_def plain_env_def)
  have m: "fst (getManifest layers_env ''current/manifest.json'' w) = Inr ?sl"
    "fst (getManifest layers_env ''maphack/manifest.json'' w) = Inr ?mh"
    "fst (getManifest layers_env ''hd/manifest.json'' w) = Inr ?hd" for w
    by (simp_all add: getManifest_def GetFile_def layers_env_def plain_env_def)
  note ev = installUpToDate_def lookupFails_def layerMatches_def unreadable_def localCRC_def
    hashCRC32_def isMaphackInstalled_def isHDInstalled_def osStat_def validate113cVersion_def
    localizePath_def joinPath_def layers_env_def plain_env_def game_M_def game_N_def
    a_mpq_def bh_dll_def bh_cfg_def d2hd_dll_def
  have u1: "installUpToDate layers_env installs_current ?sl ?mh ?hd game_M"
    by (simp add: ev installs_current_def)
  have u2: "installUpToDate layers_env installs_current ?sl ?mh ?hd game_N"
    by (simp add: ev installs_current_def)
  have n1: "\<not> lookupFails layers_env installs_current ?sl ?mh ?hd game_M"
    by (simp add: ev installs_current_def)
  have n2: "\<not> lookupFails layers_env installs_current ?sl ?mh ?hd game_N"
    by (simp add: ev installs_current_def)
  have u3: "installUpToDate layers_env installs_stale ?sl ?mh ?hd game_M"
    by (simp add: ev installs_stale_def)
  have n3: "\<not> lookupFails layers_env installs_stale ?sl ?mh ?hd game_M"
    by (simp add: ev installs_stale_def)
  have l4: "\<not> layerMatches (hashCRC32 layers_env installs_stale) (Location game_N) [] ?sl"
    by (simp add: ev installs_stale_def)
  then have u4: "\<not> installUpToDate layers_env installs_stale ?sl ?mh ?hd game_N"
    by (simp add: installUpToDate_def)
  have n4: "\<not> lookupFails layers_env installs_stale ?sl ?mh ?hd game_N"
    by (simp add: ev installs_stale_def)
  have all: "\<forall>g \<in> set [game_M, game_N].
      installUpToDate layers_env installs_current ?sl ?mh ?hd g \<and>
      \<not> lookupFails layers_env installs_current ?sl ?mh ?hd g"
    using u1 u2 n1 n2 by simp
  have v1: "fst (ValidateGameVersions layers_env installs_current) = Inr True"
    by (rule ValidateGameVersions_checks [of layers_env installs_current, THEN conjunct2,
          THEN conjunct2, THEN conjunct2, THEN conjunct1, rule_format,
          of "[game_M, game_N]" ?sl ?mh ?hd]) (intro conjI c m all)
  have bef: "\<forall>g' \<in> set [game_M].
      installUpToDate layers_env installs_stale ?sl ?mh ?hd g' \<and>
      \<not> lookupFails layers_env installs_stale ?sl ?mh ?hd g'"
    using u3 n3 by simp
  have split: "[game_M, game_N] = [game_M] @ game_N # []" by simp
  have v2: "fst (ValidateGameVersions layers_env installs_stale) = Inr False"
    by (rule ValidateGameVersions_checks [of layers_env installs_stale, THEN conjunct2,
          THEN conjunct2, THEN conjunct1, rule_format,
          of "[game_M, game_N]" ?sl ?mh ?hd "[game_M]" game_N "[]"])
       (intro conjI c m split bef u4 n4)
  have d: "disk (snd (ValidateGameVersions layers_env installs_stale)) = disk installs_stale"
    by (rule ValidateGameVersions_checks [of layers_env installs_stale, THEN conjunct2,
          THEN conjunct2, THEN conjunct2, THEN conjunct2, THEN conjunct1])
  show ?thesis by (intro conjI c u1 u2 v1 u3 l4 u4 v2 d)
qed

end
